theory Spec2Isabelle
  imports Main
begin

section \<open>Go primitives used by the package\<close>

text \<open>
  Go strings are byte sequences, modelled as \<open>string\<close>. A slice expression or an index
  expression whose bound lies outside the operand is a run-time panic; every such
  expression of the source is a branch of the model.
\<close>

datatype panic = SliceBoundsOutOfRange | IndexOutOfRange | MuxRegistration

text \<open>\<^verbatim>\<open>s[:n]\<close>\<close>

definition slice_to :: "nat \<Rightarrow> string \<Rightarrow> panic + string" where
  "slice_to n s = (if n \<le> length s then Inr (take n s) else Inl SliceBoundsOutOfRange)"

text \<open>\<^verbatim>\<open>s[n:]\<close>\<close>

definition slice_from :: "nat \<Rightarrow> 'a list \<Rightarrow> panic + 'a list" where
  "slice_from n s = (if n \<le> length s then Inr (drop n s) else Inl SliceBoundsOutOfRange)"

text \<open>\<^verbatim>\<open>xs[i]\<close> for an index that the source computes as an integer, possibly negative.\<close>

definition index_at :: "'a list \<Rightarrow> int \<Rightarrow> panic + 'a" where
  "index_at xs i = (if 0 \<le> i \<and> i < int (length xs) then Inr (xs ! nat i) else Inl IndexOutOfRange)"

text \<open>
  \<^verbatim>\<open>strings.Split(s, sep)\<close> for a one-byte separator: the pieces between the
  separators, one more than there are separators; never the empty slice.
\<close>

fun Split :: "string \<Rightarrow> char \<Rightarrow> string list" where
  "Split [] c = [[]]"
| "Split (x # xs) c =
     (if x = c then [] # Split xs c
      else (case Split xs c of y # ys \<Rightarrow> (x # y) # ys | [] \<Rightarrow> [[x]]))"

subsection \<open>strconv.ParseUint and strconv.ParseInt in base 10 with 64 bits\<close>

datatype numError = ErrSyntax | ErrRange

definition isDigit :: "char \<Rightarrow> bool" where
  "isDigit c = ((48::nat) \<le> of_char c \<and> of_char c \<le> (57::nat))"

definition digitVal :: "char \<Rightarrow> int" where
  "digitVal c = of_char c - 48"

definition maxUint64 :: int where
  "maxUint64 = 2 ^ 64 - 1"

text \<open>
  The digit loop of \<^verbatim>\<open>ParseUint\<close>: a byte that is no digit ends it with the value 0
  and a syntax error, an overflow ends it with the largest value and a range error,
  whichever comes first from the left. The accumulator is an \<open>int\<close> that stays within
  the range of \<^verbatim>\<open>uint64\<close>.
\<close>

fun parseDigits :: "string \<Rightarrow> int \<Rightarrow> int \<times> numError option" where
  "parseDigits [] n = (n, None)"
| "parseDigits (c # cs) n =
     (if \<not> isDigit c then (0, Some ErrSyntax)
      else if n * 10 + digitVal c > maxUint64 then (maxUint64, Some ErrRange)
      else parseDigits cs (n * 10 + digitVal c))"

definition ParseUint :: "string \<Rightarrow> int \<times> numError option" where
  "ParseUint s = (if s = [] then (0, Some ErrSyntax) else parseDigits s 0)"

text \<open>
  \<^verbatim>\<open>ParseInt\<close> takes the sign off, parses the rest with \<^verbatim>\<open>ParseUint\<close> and checks the
  signed range: a syntax error gives 0, a value out of range gives the nearest bound.
\<close>

definition ParseInt :: "string \<Rightarrow> int \<times> numError option" where
  "ParseInt s0 =
     (if s0 = [] then (0, Some ErrSyntax)
      else
        let neg = (hd s0 = CHR ''-'');
            s = (if hd s0 = CHR ''+'' \<or> hd s0 = CHR ''-'' then tl s0 else s0);
            (un, err) = ParseUint s;
            cutoff = (2::int) ^ 63
        in if err = Some ErrSyntax then (0, err)
           else if \<not> neg \<and> un \<ge> cutoff then (cutoff - 1, Some ErrRange)
           else if neg \<and> un > cutoff then (- cutoff, Some ErrRange)
           else (if neg then - un else un, None))"

section \<open>The collection filter\<close>

datatype Order = ASC | DESC

record SortObj =
  SortOrder :: Order
  FieldName :: string

datatype CompType = LT | LTEQ | EQ | GT | GTEQ

record PropFilterObj =
  Comp :: CompType
  PropName :: string
  Value :: string

text \<open>
  \<^verbatim>\<open>Page *int64\<close> and \<^verbatim>\<open>Count *uint64\<close>: \<open>None\<close> is the nil pointer. No
  arithmetic is done on either, so the pointed-to values are kept as \<open>int\<close>, within
  the ranges that \<open>ParseInt\<close> and \<open>ParseUint\<close> produce.
\<close>

record CollFilter =
  Page :: "int option"
  Count :: "int option"
  Sort :: "SortObj list"
  PropFilters :: "PropFilterObj list"

definition emptyFilter :: CollFilter where
  "emptyFilter = \<lparr>Page = None, Count = None, Sort = [], PropFilters = []\<rparr>"

text \<open>
  The parser's state is the filter being filled and the lines written with
  \<^verbatim>\<open>log.Println\<close>, oldest first.
\<close>

type_synonym pstate = "CollFilter \<times> string list"

definition warnSort :: string where
  "warnSort = ''WARNING: failed to parse 'sort' query parameter''"

definition warnFilter :: "string \<Rightarrow> string" where
  "warnFilter k = ''WARNING: failed to parse filter query parameter, '' @ [CHR 0x27] @ k @ [CHR 0x27]"

definition warnPage :: string where
  "warnPage = ''WARNING: failed to parse 'page' query parameter''"

definition warnCount :: string where
  "warnCount = ''WARNING: failed to parse 'count' query parameter''"

text \<open>One round of the loop of \<^verbatim>\<open>popSort\<close>, on the element \<open>ss\<close>.\<close>

definition popSortElem :: "string \<Rightarrow> pstate \<Rightarrow> panic + pstate" where
  "popSortElem ss st =
     (case slice_to 4 ss of Inl p \<Rightarrow> Inl p
      | Inr a \<Rightarrow>
          if a = ''asc.'' then
            (case slice_from 4 ss of Inl p \<Rightarrow> Inl p
             | Inr f \<Rightarrow> Inr ((fst st)\<lparr>Sort := Sort (fst st) @ [\<lparr>SortOrder = ASC, FieldName = f\<rparr>]\<rparr>, snd st))
          else
            (case slice_to 5 ss of Inl p \<Rightarrow> Inl p
             | Inr d \<Rightarrow>
                 if d = ''desc.'' then
                   (case slice_from 5 ss of Inl p \<Rightarrow> Inl p
                    | Inr f \<Rightarrow> Inr ((fst st)\<lparr>Sort := Sort (fst st) @ [\<lparr>SortOrder = DESC, FieldName = f\<rparr>]\<rparr>, snd st))
                 else Inr (fst st, snd st @ [warnSort])))"

fun popSortLoop :: "string list \<Rightarrow> pstate \<Rightarrow> panic + pstate" where
  "popSortLoop [] st = Inr st"
| "popSortLoop (ss # rest) st =
     (case popSortElem ss st of Inl p \<Rightarrow> Inl p | Inr st' \<Rightarrow> popSortLoop rest st')"

definition popSort :: "string \<Rightarrow> pstate \<Rightarrow> panic + pstate" where
  "popSort sortString st = popSortLoop (Split sortString CHR '','') st"

text \<open>
  \<^verbatim>\<open>url.Values\<close> is a Go map from a key to its values. Ranging over a Go map visits
  the keys in an order the language leaves open, so the model takes the map as an
  association list and visits the keys in the order of the list: every order of the
  keys is one list.
\<close>

type_synonym Values = "(string \<times> string list) list"

definition addFilter :: "CompType \<Rightarrow> string \<Rightarrow> string \<Rightarrow> pstate \<Rightarrow> pstate" where
  "addFilter c k x st =
     ((fst st)\<lparr>PropFilters := PropFilters (fst st) @ [\<lparr>Comp = c, PropName = k, Value = x\<rparr>]\<rparr>, snd st)"

text \<open>
  One round of the inner loop of \<^verbatim>\<open>popFilter\<close>, on the value \<open>v\<close> of the key \<open>k\<close>.
  The source writes \<^verbatim>\<open>v[:3]\<close> and \<^verbatim>\<open>v[:5]\<close> several times; each is evaluated
  where the source first reaches it and its value is used again after that. The field
  \<^verbatim>\<open>FieldName\<close> of \<^verbatim>\<open>PropFilterObj\<close> is \<open>PropName\<close> here, the name being taken by
  \<^verbatim>\<open>SortObj\<close>.
\<close>

definition popFilterValue :: "string \<Rightarrow> string \<Rightarrow> pstate \<Rightarrow> panic + pstate" where
  "popFilterValue k v st =
     (case slice_to 3 v of Inl p \<Rightarrow> Inl p
      | Inr v3 \<Rightarrow>
          if v3 = ''lt.'' then Inr (addFilter LT k v3 st)
          else
            (case slice_to 5 v of Inl p \<Rightarrow> Inl p
             | Inr v5 \<Rightarrow>
                 if v5 = ''lteq.'' then Inr (addFilter LTEQ k v5 st)
                 else if v3 = ''eq.'' then Inr (addFilter EQ k v3 st)
                 else if v3 = ''gt.'' then Inr (addFilter GT k v3 st)
                 else if v5 = ''gteq.'' then Inr (addFilter GTEQ k v5 st)
                 else Inr (fst st, snd st @ [warnFilter k])))"

fun popFilterValues :: "string \<Rightarrow> string list \<Rightarrow> pstate \<Rightarrow> panic + pstate" where
  "popFilterValues k [] st = Inr st"
| "popFilterValues k (v # va) st =
     (case popFilterValue k v st of Inl p \<Rightarrow> Inl p | Inr st' \<Rightarrow> popFilterValues k va st')"

fun popFilter :: "Values \<Rightarrow> pstate \<Rightarrow> panic + pstate" where
  "popFilter [] st = Inr st"
| "popFilter ((k, va) # rest) st =
     (case popFilterValues k va st of Inl p \<Rightarrow> Inl p | Inr st' \<Rightarrow> popFilter rest st')"

text \<open>\<^verbatim>\<open>q[k]\<close> with its presence flag, and \<^verbatim>\<open>delete(q, k)\<close>.\<close>

definition lookupKey :: "Values \<Rightarrow> string \<Rightarrow> string list option" where
  "lookupKey q k = map_of q k"

definition deleteKey :: "Values \<Rightarrow> string \<Rightarrow> Values" where
  "deleteKey q k = filter (\<lambda>kv. fst kv \<noteq> k) q"

text \<open>
  \<^verbatim>\<open>pop\<close>, on the parsed query \<open>q\<close> of the request. The result is the state and the
  returned error (\<open>None\<close> is nil), or the panic that ended the call.
\<close>

definition popPage :: "Values \<Rightarrow> pstate \<Rightarrow> panic + pstate" where
  "popPage q st =
     (case lookupKey q ''page'' of
        None \<Rightarrow> Inr st
      | Some pageS \<Rightarrow>
          (case index_at pageS 0 of Inl p \<Rightarrow> Inl p
           | Inr s \<Rightarrow>
               let (page, err) = ParseInt s;
                   lg = (if err \<noteq> None then snd st @ [warnPage] else snd st)
               in Inr ((fst st)\<lparr>Page := Some page\<rparr>, lg)))"

definition popCount :: "Values \<Rightarrow> pstate \<Rightarrow> panic + pstate" where
  "popCount q st =
     (case lookupKey q ''count'' of
        None \<Rightarrow> Inr st
      | Some countS \<Rightarrow>
          (case index_at countS 0 of Inl p \<Rightarrow> Inl p
           | Inr s \<Rightarrow>
               let (count, err) = ParseUint s;
                   lg = (if err \<noteq> None then snd st @ [warnCount] else snd st)
               in Inr ((fst st)\<lparr>Count := Some count\<rparr>, lg)))"

definition popSortKey :: "Values \<Rightarrow> pstate \<Rightarrow> panic + pstate" where
  "popSortKey q st =
     (case lookupKey q ''sort'' of
        None \<Rightarrow> Inr st
      | Some sortS \<Rightarrow>
          (case index_at sortS 0 of Inl p \<Rightarrow> Inl p | Inr s \<Rightarrow> popSort s st))"

definition pop :: "Values \<Rightarrow> pstate \<Rightarrow> panic + (pstate \<times> string option)" where
  "pop q st =
     (case popPage q st of Inl p \<Rightarrow> Inl p
      | Inr st1 \<Rightarrow>
          let q1 = deleteKey q ''page'' in
          (case popCount q1 st1 of Inl p \<Rightarrow> Inl p
           | Inr st2 \<Rightarrow>
               let q2 = deleteKey q1 ''count'' in
               (case popSortKey q2 st2 of Inl p \<Rightarrow> Inl p
                | Inr st3 \<Rightarrow>
                    let q3 = deleteKey q2 ''sort'' in
                    (case popFilter q3 st3 of Inl p \<Rightarrow> Inl p
                     | Inr st4 \<Rightarrow> Inr (st4, None)))))"

section \<open>Paths of parent entities\<close>

text \<open>
  An \<^verbatim>\<open>error\<close> of Go is kept by its message. The two error types of the package are the
  constructors of \<open>pathError\<close>; \<open>parseUUIDError\<close> holds \<^verbatim>\<open>pathComponent\<close> and
  \<^verbatim>\<open>parseError\<close>.
\<close>

datatype pathError = pathComponentError string | parseUUIDError string string

text \<open>
  \<^verbatim>\<open>uuid.FromString\<close> belongs to the package \<^verbatim>\<open>github.com/satori/go.uuid\<close>, which is
  not part of this repository: it is the parameter \<open>fromString\<close>, from a string to the
  error or the identifier, and the type of identifiers is a type variable.

  The loop of \<^verbatim>\<open>getPathComponentUuids\<close>, at index \<open>i\<close> with the map built so far. The
  source's test \<^verbatim>\<open>i < len(pathComponents)-1\<close> is on integers; \<open>i + 1 < length pcs\<close> is
  the same test on naturals. When an identifier does not parse, the source has stored the
  failed result under the name already, but it returns a new empty map, not the one
  being built.
\<close>

function uuidLoop ::
  "(string \<Rightarrow> string + 'u) \<Rightarrow> string list \<Rightarrow> nat \<Rightarrow> (string \<rightharpoonup> 'u) \<Rightarrow> (string \<rightharpoonup> 'u) \<times> pathError option"
where
  "uuidLoop fromString pcs i m =
     (if i + 1 < length pcs then
        (case fromString (pcs ! (i + 1)) of
           Inl err \<Rightarrow> (Map.empty, Some (parseUUIDError (pcs ! i) err))
         | Inr u \<Rightarrow> uuidLoop fromString pcs (i + 2) (m(pcs ! i \<mapsto> u)))
      else (m, None))"
  by pat_completeness auto
termination
  by (relation "measure (\<lambda>(f, pcs, i, m). length pcs - i)") auto

declare uuidLoop.simps [simp del]

text \<open>\<^verbatim>\<open>strings.Split(path, "/")[1:]\<close>; \<open>Split\<close> has at least one piece, so the slice is in range.\<close>

definition pathComponentsOf :: "string \<Rightarrow> string list" where
  "pathComponentsOf path = tl (Split path CHR ''/'')"

definition getPathComponentUuids ::
  "(string \<Rightarrow> string + 'u) \<Rightarrow> string \<Rightarrow> (string \<rightharpoonup> 'u) \<times> pathError option"
where
  "getPathComponentUuids fromString path =
     (let pathComponents = pathComponentsOf path
      in if length pathComponents mod 2 \<noteq> 1 then (Map.empty, Some (pathComponentError path))
         else uuidLoop fromString pathComponents 0 Map.empty)"

text \<open>
  Building a plural path from parent pairs and a terminal name, as the specification's
  round trip has it: \<^verbatim>\<open>/name/id\<close> for each pair, then \<^verbatim>\<open>/name\<close>. The identifier is
  written by \<open>toString\<close>.
\<close>

fun buildPath :: "('u \<Rightarrow> string) \<Rightarrow> (string \<times> 'u) list \<Rightarrow> string \<Rightarrow> string" where
  "buildPath toString [] t = CHR ''/'' # t"
| "buildPath toString ((n, u) # ps) t = CHR ''/'' # n @ CHR ''/'' # toString u @ buildPath toString ps t"

section \<open>Requests, responses and the handlers\<close>

text \<open>
  Of a request the handlers read the method, \<^verbatim>\<open>URL.Path\<close>, the parsed query
  (\<^verbatim>\<open>URL.Query()\<close>), the body as \<^verbatim>\<open>ioutil.ReadAll\<close> returns it (\<open>None\<close> when reading fails),
  the credentials of \<^verbatim>\<open>BasicAuth()\<close> (\<open>None\<close> when \<^verbatim>\<open>ok\<close> is false) and the requestor
  stored in the context (\<open>None\<close> when the context has no value for the key).
\<close>

record 'ent Request =
  Method :: string
  Path :: string
  Query :: Values
  Body :: "string option"
  BasicAuth :: "(string \<times> string) option"
  Requestor :: "'ent option"

text \<open>
  The response writer: the header lines in the order they were added, the status once
  \<^verbatim>\<open>WriteHeader\<close> has run, and the bytes written. Header keys are kept as the source
  writes them.
\<close>

record Response =
  Header :: "(string \<times> string) list"
  Status :: "nat option"
  Out :: string

definition headerAdd :: "string \<Rightarrow> string \<Rightarrow> Response \<Rightarrow> Response" where
  "headerAdd k v w = w\<lparr>Header := Header w @ [(k, v)]\<rparr>"

definition headerSet :: "string \<Rightarrow> string \<Rightarrow> Response \<Rightarrow> Response" where
  "headerSet k v w = w\<lparr>Header := filter (\<lambda>kv. fst kv \<noteq> k) (Header w) @ [(k, v)]\<rparr>"

text \<open>Only the first \<^verbatim>\<open>WriteHeader\<close> sets the status; a write without one sets 200.\<close>

definition WriteHeader :: "nat \<Rightarrow> Response \<Rightarrow> Response" where
  "WriteHeader code w = (if Status w = None then w\<lparr>Status := Some code\<rparr> else w)"

definition Fprint :: "string \<Rightarrow> Response \<Rightarrow> Response" where
  "Fprint s w = (let w' = WriteHeader 200 w in w'\<lparr>Out := Out w' @ s\<rparr>)"

text \<open>\<^verbatim>\<open>http.Error(w, msg, code)\<close>\<close>

definition Error :: "Response \<Rightarrow> string \<Rightarrow> nat \<Rightarrow> Response" where
  "Error w msg code =
     Fprint (msg @ [CHR 0x0A])
       (WriteHeader code
         (headerSet ''X-Content-Type-Options'' ''nosniff''
           (headerSet ''Content-Type'' ''text/plain; charset=utf-8'' w)))"

definition StatusBadRequest :: nat where "StatusBadRequest = 400"
definition StatusUnauthorized :: nat where "StatusUnauthorized = 401"
definition StatusForbidden :: nat where "StatusForbidden = 403"
definition StatusNotFound :: nat where "StatusNotFound = 404"
definition StatusInternalServerError :: nat where "StatusInternalServerError = 500"
definition StatusCreated :: nat where "StatusCreated = 201"
definition StatusMovedPermanently :: nat where "StatusMovedPermanently = 301"

record 'ent Collection =
  TotalEntities :: nat
  Entities :: "'ent list"

text \<open>
  The interface \<^verbatim>\<open>EntityCollection\<close>, one field for each method the handlers call. A
  method returning a value and an error is a sum, \<open>Inl\<close> the error. A handler calls at
  most one of them in a request, so the collection's own state is not threaded.
\<close>

record ('ent, 'u) EntityCollection =
  GetRestName :: string
  CreateEntity :: "'ent option \<Rightarrow> (string \<rightharpoonup> 'u) \<Rightarrow> string \<Rightarrow> string + string"
  GetEntity :: "'u \<Rightarrow> string + 'ent"
  GetCollection :: "(string \<rightharpoonup> 'u) \<Rightarrow> CollFilter \<Rightarrow> string + 'ent Collection"
  EditEntity :: "'u \<Rightarrow> string \<Rightarrow> string option"
  DelEntity :: "'u \<Rightarrow> string option"

text \<open>
  What the handlers call outside this repository: \<^verbatim>\<open>uuid.FromString\<close>, \<^verbatim>\<open>json.Marshal\<close>
  on an entity and on a collection, and the function variable \<^verbatim>\<open>getRequestor\<close>.
\<close>

record ('ent, 'u) Env =
  FromString :: "string \<Rightarrow> string + 'u"
  MarshalEntity :: "'ent \<Rightarrow> string + string"
  MarshalCollection :: "'ent Collection \<Rightarrow> string + string"
  getRequestor :: "string \<Rightarrow> string \<Rightarrow> string + 'ent"

type_synonym 'ent HandlerFn = "'ent Request \<Rightarrow> Response \<Rightarrow> panic + Response"

definition getSingularHandler ::
  "('ent, 'u) Env \<Rightarrow> ('ent, 'u) EntityCollection \<Rightarrow> 'ent HandlerFn"
where
  "getSingularHandler env ec r w =
     (let pathComponents = pathComponentsOf (Path r) in
      case index_at pathComponents (int (length pathComponents) - 1) of
        Inl p \<Rightarrow> Inl p
      | Inr lastComponent \<Rightarrow>
          (case FromString env lastComponent of
             Inl err \<Rightarrow> Inr (Error w ''error parsing  UUID'' StatusBadRequest)
           | Inr entityUuid \<Rightarrow>
               if Method r = ''PUT'' then
                 (case Body r of
                    None \<Rightarrow> Inr (Error w ''error parsing request body'' StatusInternalServerError)
                  | Some b \<Rightarrow>
                      (case EditEntity ec entityUuid b of
                         Some err \<Rightarrow> Inr (Error w ''error editing entity'' StatusInternalServerError)
                       | None \<Rightarrow> Inr w))
               else if Method r = ''DELETE'' then
                 (case DelEntity ec entityUuid of
                    Some err \<Rightarrow> Inr (Error w ''error deleting entity'' StatusInternalServerError)
                  | None \<Rightarrow> Inr w)
               else if Method r = ''GET'' then
                 (case GetEntity ec entityUuid of
                    Inl err \<Rightarrow> Inr (Error w ''could not find entity to GET'' StatusBadRequest)
                  | Inr entity \<Rightarrow>
                      (case MarshalEntity env entity of
                         Inl err \<Rightarrow> Inr (Error w ''error encoding JSON'' StatusInternalServerError)
                       | Inr entityJson \<Rightarrow> Inr (Fprint entityJson w)))
               else Inr w))"

text \<open>
  The plural handler. Its type switch has a default branch for an error that is neither
  of the two types; \<^verbatim>\<open>getPathComponentUuids\<close> returns no such error, and \<open>pathError\<close> has
  no third constructor. After a non-nil error of \<^verbatim>\<open>pop\<close> the source writes the
  bad-request response and goes on without returning.
\<close>

definition errFilters :: string where
  "errFilters = ''error parsing collection filters''"

definition getPluralHandler ::
  "('ent, 'u) Env \<Rightarrow> ('ent, 'u) EntityCollection \<Rightarrow> 'ent HandlerFn"
where
  "getPluralHandler env ec r w =
     (let (parentEntityUuids, err) = getPathComponentUuids (FromString env) (Path r) in
      case err of
        Some (pathComponentError p) \<Rightarrow> Inr (Error w ''invalid collection path'' StatusNotFound)
      | Some (parseUUIDError pc e) \<Rightarrow>
          Inr (Error w (''invalid UUID for component: '' @ pc) StatusNotFound)
      | None \<Rightarrow>
          if Method r = ''GET'' then
            (case pop (Query r) (emptyFilter, []) of
               Inl p \<Rightarrow> Inl p
             | Inr (st, perr) \<Rightarrow>
                 let w1 = (case perr of Some e \<Rightarrow> Error w errFilters StatusBadRequest | None \<Rightarrow> w) in
                 (case GetCollection ec parentEntityUuids (fst st) of
                    Inl e \<Rightarrow> Inr (Error w1 ''error retrieving collection'' StatusNotFound)
                  | Inr c \<Rightarrow>
                      (case MarshalCollection env c of
                         Inl e \<Rightarrow> Inr (Error w1 ''error encoding JSON'' StatusInternalServerError)
                       | Inr entityJson \<Rightarrow> Inr (Fprint entityJson w1))))
          else if Method r = ''POST'' then
            (case Body r of
               None \<Rightarrow> Inr (Error w ''error reading request body'' StatusInternalServerError)
             | Some b \<Rightarrow>
                 (case CreateEntity ec (Requestor r) parentEntityUuids b of
                    Inl e \<Rightarrow> Inr (Error w ''error creating entity'' StatusBadRequest)
                  | Inr entityPath \<Rightarrow>
                      Inr (WriteHeader StatusCreated (headerSet ''Location'' entityPath w))))
          else Inr w)"

definition corsOrigin :: string where
  "corsOrigin = ''http://localhost:8090''"

definition applySecurity :: "('ent, 'u) Env \<Rightarrow> 'ent HandlerFn \<Rightarrow> 'ent HandlerFn" where
  "applySecurity env handler r w =
     (if Method r = ''OPTIONS'' then handler r w
      else
        (case BasicAuth r of
           None \<Rightarrow>
             Inr (Error
                    (headerAdd ''WWW-Authenticate'' (''Basic realm='' @ [CHR 0x22] @ ''a'' @ [CHR 0x22])
                      (headerAdd ''Access-Control-Allow-Origin'' corsOrigin w))
                    [] StatusUnauthorized)
         | Some (uname, pword) \<Rightarrow>
             (case getRequestor env uname pword of
                Inl err \<Rightarrow> Inr (Error w ''incorrect uname/pword'' StatusForbidden)
              | Inr requestor \<Rightarrow> handler (r\<lparr>Requestor := Some requestor\<rparr>) w)))"

definition applyCorsHeaders :: "'ent HandlerFn \<Rightarrow> 'ent HandlerFn" where
  "applyCorsHeaders handler r w =
     (if Method r = ''OPTIONS'' then
        Inr (headerAdd ''Access-Control-Allow-Methods'' ''GET, PUT, POST, DELETE''
              (headerAdd ''Access-Control-Allow-Headers'' ''Authorization''
                (headerAdd ''Access-Control-Allow-Origin'' corsOrigin w)))
      else if Method r = ''GET'' \<or> Method r = ''PUT'' \<or> Method r = ''POST'' \<or> Method r = ''DELETE'' then
        handler r
          (headerAdd ''Access-Control-Expose-Headers'' ''Location''
            (headerAdd ''Access-Control-Allow-Origin'' corsOrigin w))
      else Inr w)"

section \<open>The table of routes\<close>

text \<open>
  \<^verbatim>\<open>http.ServeMux\<close> belongs to Go's standard library; the model follows its documented
  behaviour as far as \<^verbatim>\<open>CreateApiObject\<close> and \<^verbatim>\<open>RootApiHandler\<close> use it. A handler
  found by the table is a registered function, the library's not-found handler or the
  library's redirect handler with its target and status.
\<close>

datatype 'ent Handler =
  HandlerFunc "'ent HandlerFn"
| NotFoundHandler
| RedirectHandler string nat

type_synonym 'ent ServeMux = "(string \<times> 'ent Handler) list"

text \<open>
  \<^verbatim>\<open>path.Clean\<close> on a rooted path: empty and \<^verbatim>\<open>.\<close> elements go, a \<^verbatim>\<open>..\<close> element goes with
  the element before it, and at the root it goes alone.
\<close>

definition cleanStep :: "string list \<Rightarrow> string \<Rightarrow> string list" where
  "cleanStep stack c =
     (if c = [] \<or> c = ''.'' then stack
      else if c = ''..'' then butlast stack
      else stack @ [c])"

fun joinSlash :: "string list \<Rightarrow> string" where
  "joinSlash [] = []"
| "joinSlash [a] = a"
| "joinSlash (a # b # r) = a @ CHR ''/'' # joinSlash (b # r)"

definition Clean :: "string \<Rightarrow> string" where
  "Clean p = CHR ''/'' # joinSlash (foldl cleanStep [] (Split p CHR ''/''))"

text \<open>
  \<^verbatim>\<open>cleanPath\<close> of \<^verbatim>\<open>net/http\<close>: the canonical form of a request path, rooted, with the
  trailing slash kept.
\<close>

definition cleanPath :: "string \<Rightarrow> string" where
  "cleanPath p0 =
     (if p0 = [] then ''/''
      else
        let p = (if hd p0 \<noteq> CHR ''/'' then CHR ''/'' # p0 else p0);
            np = Clean p
        in if last p = CHR ''/'' \<and> np \<noteq> ''/'' then np @ ''/'' else np)"

text \<open>
  The table's search: the pattern equal to the path, else the longest pattern that ends
  in a slash and is a prefix of the path. Every pattern that \<^verbatim>\<open>CreateApiObject\<close> registers
  starts with a slash, so the table has no host-specific pattern, and it registers
  \<^verbatim>\<open>/name/\<close> only together with \<^verbatim>\<open>/name\<close>, so the library never redirects a path to the
  same path with a slash appended.
\<close>

definition isPrefixPattern :: "string \<Rightarrow> string \<Rightarrow> bool" where
  "isPrefixPattern pattern path =
     (pattern \<noteq> [] \<and> last pattern = CHR ''/'' \<and> take (length pattern) path = pattern)"

fun longestPattern :: "'ent ServeMux \<Rightarrow> (string \<times> 'ent Handler) option \<Rightarrow> (string \<times> 'ent Handler) option" where
  "longestPattern [] best = best"
| "longestPattern (e # es) best =
     longestPattern es
       (case best of
          None \<Rightarrow> Some e
        | Some b \<Rightarrow> if length (fst b) < length (fst e) then Some e else Some b)"

definition muxMatch :: "'ent ServeMux \<Rightarrow> string \<Rightarrow> ('ent Handler \<times> string) option" where
  "muxMatch mux path =
     (case map_of mux path of
        Some h \<Rightarrow> Some (h, path)
      | None \<Rightarrow>
          (case longestPattern (filter (\<lambda>e. isPrefixPattern (fst e) path) mux) None of
             Some e \<Rightarrow> Some (snd e, fst e)
           | None \<Rightarrow> None))"

definition muxHandler :: "'ent ServeMux \<Rightarrow> string \<Rightarrow> 'ent Handler \<times> string" where
  "muxHandler mux path =
     (case muxMatch mux path of Some hp \<Rightarrow> hp | None \<Rightarrow> (NotFoundHandler, []))"

text \<open>
  \<^verbatim>\<open>(*ServeMux).Handler\<close>: a path that is not in canonical form gets the redirect
  handler to the canonical path, with the pattern that matches the canonical path; a
  \<^verbatim>\<open>CONNECT\<close> request is looked up as it is. The redirect keeps the query string of the
  request, which the model leaves out of the target.
\<close>

definition ServeMux_Handler :: "'ent ServeMux \<Rightarrow> 'ent Request \<Rightarrow> 'ent Handler \<times> string" where
  "ServeMux_Handler mux r =
     (if Method r = ''CONNECT'' then muxHandler mux (Path r)
      else
        let path = cleanPath (Path r)
        in if path \<noteq> Path r then (RedirectHandler path StatusMovedPermanently, snd (muxHandler mux path))
           else muxHandler mux (Path r))"

text \<open>\<^verbatim>\<open>(*ServeMux).Handle\<close> panics on an empty pattern and on a pattern registered before.\<close>

definition Handle :: "'ent ServeMux \<Rightarrow> string \<Rightarrow> 'ent Handler \<Rightarrow> panic + 'ent ServeMux" where
  "Handle mux pattern handler =
     (if pattern = [] \<or> pattern \<in> set (map fst mux) then Inl MuxRegistration
      else Inr (mux @ [(pattern, handler)]))"

text \<open>
  Serving with a handler of the table. The not-found handler is
  \<^verbatim>\<open>http.Error(w, "404 page not found", StatusNotFound)\<close>; the redirect handler sets
  \<^verbatim>\<open>Location\<close> and writes the status (the short note it also writes for \<^verbatim>\<open>GET\<close> is
  left out).
\<close>

definition ServeHTTP :: "'ent Handler \<Rightarrow> 'ent HandlerFn" where
  "ServeHTTP h r w =
     (case h of
        HandlerFunc f \<Rightarrow> f r w
      | NotFoundHandler \<Rightarrow> Inr (Error w ''404 page not found'' StatusNotFound)
      | RedirectHandler url code \<Rightarrow> Inr (WriteHeader code (headerSet ''Location'' url w)))"

definition pluralOf :: "('ent, 'u) Env \<Rightarrow> ('ent, 'u) EntityCollection \<Rightarrow> 'ent HandlerFn" where
  "pluralOf env ec = applyCorsHeaders (applySecurity env (getPluralHandler env ec))"

definition singularOf :: "('ent, 'u) Env \<Rightarrow> ('ent, 'u) EntityCollection \<Rightarrow> 'ent HandlerFn" where
  "singularOf env ec = applyCorsHeaders (applySecurity env (getSingularHandler env ec))"

text \<open>
  \<^verbatim>\<open>CreateApiObject\<close> on the table \<^verbatim>\<open>entityServeMux\<close>: \<open>pluralOf\<close> and \<open>singularOf\<close> are
  \<^verbatim>\<open>pHandler\<close> and \<^verbatim>\<open>sHandler\<close> after both wrappers.
\<close>

definition CreateApiObject ::
  "('ent, 'u) Env \<Rightarrow> ('ent, 'u) EntityCollection \<Rightarrow> 'ent ServeMux \<Rightarrow> panic + 'ent ServeMux"
where
  "CreateApiObject env ec entityServeMux =
     (case Handle entityServeMux (CHR ''/'' # GetRestName ec) (HandlerFunc (pluralOf env ec)) of
        Inl p \<Rightarrow> Inl p
      | Inr mux1 \<Rightarrow>
          Handle mux1 (CHR ''/'' # GetRestName ec @ ''/'') (HandlerFunc (singularOf env ec)))"

text \<open>
  \<^verbatim>\<open>RootApiHandler\<close>. The request handed to the handler found has its path set back to
  \<^verbatim>\<open>pathBu\<close>; after the second search the source serves with the handler found whether
  the pattern is empty or not.
\<close>

definition RootApiHandler :: "'ent ServeMux \<Rightarrow> 'ent HandlerFn" where
  "RootApiHandler entityServeMux r w =
     (let pathBu = Path r;
          pathComponents = Split (Path r) CHR ''/''
      in case index_at pathComponents (int (length pathComponents) - 1) of
           Inl p \<Rightarrow> Inl p
         | Inr entityName \<Rightarrow>
             let (h, pattern) = ServeMux_Handler entityServeMux (r\<lparr>Path := CHR ''/'' # entityName\<rparr>)
             in if pattern \<noteq> [] then ServeHTTP h (r\<lparr>Path := pathBu\<rparr>) w
                else
                  (case index_at pathComponents (int (length pathComponents) - 2) of
                     Inl p \<Rightarrow> Inl p
                   | Inr entityName2 \<Rightarrow>
                       let (h2, pattern2) =
                             ServeMux_Handler entityServeMux (r\<lparr>Path := CHR ''/'' # entityName2 @ ''/''\<rparr>)
                       in ServeHTTP h2 (r\<lparr>Path := pathBu\<rparr>) w))"

section \<open>Instances of the outside parts, for evaluation\<close>

text \<open>
  An identifier parser for the canonical form of a UUID, 32 hexadecimal digits in groups
  of 8, 4, 4, 4 and 12 with hyphens between, giving the sixteen bytes; and its printer.
\<close>

definition hexVal :: "char \<Rightarrow> nat option" where
  "hexVal c =
     (let n = (of_char c :: nat)
      in if 48 \<le> n \<and> n \<le> 57 then Some (n - 48)
         else if 97 \<le> n \<and> n \<le> 102 then Some (n - 87)
         else if 65 \<le> n \<and> n \<le> 70 then Some (n - 55)
         else None)"

fun hexBytes :: "string \<Rightarrow> nat list option" where
  "hexBytes [] = Some []"
| "hexBytes [a] = None"
| "hexBytes (a # b # r) =
     (case (hexVal a, hexVal b, hexBytes r) of
        (Some x, Some y, Some bs) \<Rightarrow> Some ((16 * x + y) # bs)
      | _ \<Rightarrow> None)"

definition canonicalFromString :: "string \<Rightarrow> string + nat list" where
  "canonicalFromString s =
     (if length s = 36 \<and> s ! 8 = CHR ''-'' \<and> s ! 13 = CHR ''-'' \<and> s ! 18 = CHR ''-'' \<and> s ! 23 = CHR ''-''
      then
        (case hexBytes (take 8 s @ take 4 (drop 9 s) @ take 4 (drop 14 s) @ take 4 (drop 19 s) @ drop 24 s) of
           Some bs \<Rightarrow> Inr bs
         | None \<Rightarrow> Inl ''uuid: invalid UUID format'')
      else Inl ''uuid: incorrect UUID length'')"

definition hexDigit :: "nat \<Rightarrow> char" where
  "hexDigit n = ''0123456789abcdef'' ! (n mod 16)"

definition hexOf :: "nat list \<Rightarrow> string" where
  "hexOf bs = concat (map (\<lambda>b. [hexDigit (b div 16), hexDigit b]) bs)"

definition canonicalString :: "nat list \<Rightarrow> string" where
  "canonicalString bs =
     hexOf (take 4 bs) @ ''-'' @ hexOf (take 2 (drop 4 bs)) @ ''-'' @ hexOf (take 2 (drop 6 bs)) @ ''-''
       @ hexOf (take 2 (drop 8 bs)) @ ''-'' @ hexOf (drop 10 bs)"

text \<open>
  A collection named \<^verbatim>\<open>widgets\<close> that holds no entity, and an environment with the
  canonical identifier parser, one known user and entities that are their own JSON.
\<close>

definition widgets :: "(string, nat list) EntityCollection" where
  "widgets =
     \<lparr>GetRestName = ''widgets'',
      CreateEntity = (\<lambda>requestor parents body. Inl ''not allowed''),
      GetEntity = (\<lambda>u. Inl ''no such entity''),
      GetCollection = (\<lambda>parents cf. Inr \<lparr>TotalEntities = 0, Entities = []\<rparr>),
      EditEntity = (\<lambda>u body. Some ''no such entity''),
      DelEntity = (\<lambda>u. Some ''no such entity'')\<rparr>"

definition sampleEnv :: "(string, nat list) Env" where
  "sampleEnv =
     \<lparr>FromString = canonicalFromString,
      MarshalEntity = (\<lambda>e. Inr e),
      MarshalCollection = (\<lambda>c. Inr (''{'' @ concat (Entities c) @ ''}'')),
      getRequestor = (\<lambda>uname pword. if uname = ''admin'' \<and> pword = ''secret'' then Inr ''admin'' else Inl ''unknown user'')\<rparr>"

definition newResponse :: Response where
  "newResponse = \<lparr>Header = [], Status = None, Out = []\<rparr>"

definition sampleRequest :: "string \<Rightarrow> string \<Rightarrow> Values \<Rightarrow> string Request" where
  "sampleRequest m p q =
     \<lparr>Method = m, Path = p, Query = q, Body = Some [], BasicAuth = Some (''admin'', ''secret''), Requestor = None\<rparr>"

section \<open>Notions for stating the properties of paths\<close>

text \<open>
  The components of a plural path with parent pairs \<open>qs\<close>, each a name and the text of
  its identifier, before the terminal name.
\<close>

fun flatPairs :: "(string \<times> string) list \<Rightarrow> string list" where
  "flatPairs [] = []"
| "flatPairs ((n, s) # qs) = n # s # flatPairs qs"

text \<open>The pairs with each identifier parsed; only used where every identifier parses.\<close>

definition parsedPairs :: "(string \<Rightarrow> string + 'u) \<Rightarrow> (string \<times> string) list \<Rightarrow> (string \<times> 'u) list" where
  "parsedPairs fromString qs = map (\<lambda>(n, s). (n, projr (fromString s))) qs"

text \<open>The map after storing the pairs from left to right, a later pair replacing an earlier one of the same key.\<close>

fun putAll :: "('k \<rightharpoonup> 'v) \<Rightarrow> ('k \<times> 'v) list \<Rightarrow> ('k \<rightharpoonup> 'v)" where
  "putAll m [] = m"
| "putAll m ((k, v) # ps) = putAll (m(k \<mapsto> v)) ps"

text \<open>
  The comparator of a filter value as the specification has it, the longest prefix
  first; the key and comparator of a property filter; and the keys and comparators that
  the values of a query are to give, in the order of the query, a value with no
  comparator prefix giving none.
\<close>

definition specComp :: "string \<Rightarrow> CompType option" where
  "specComp v =
     (if take 5 v = ''lteq.'' then Some LTEQ
      else if take 5 v = ''gteq.'' then Some GTEQ
      else if take 3 v = ''lt.'' then Some LT
      else if take 3 v = ''eq.'' then Some EQ
      else if take 3 v = ''gt.'' then Some GT
      else None)"

definition keyComp :: "PropFilterObj \<Rightarrow> string \<times> CompType" where
  "keyComp f = (PropName f, Comp f)"

definition specValues :: "string \<Rightarrow> string list \<Rightarrow> (string \<times> CompType) list" where
  "specValues k va = map (Pair k) (List.map_filter specComp va)"

fun specPairs :: "Values \<Rightarrow> (string \<times> CompType) list" where
  "specPairs [] = []"
| "specPairs ((k, va) # rest) = specValues k va @ specPairs rest"

text \<open>The table after \<^verbatim>\<open>CreateApiObject\<close> on the collection \<open>widgets\<close> alone.\<close>

definition widgetsMux :: "string ServeMux" where
  "widgetsMux =
     [(''/widgets'', HandlerFunc (pluralOf sampleEnv widgets)),
      (''/widgets/'', HandlerFunc (singularOf sampleEnv widgets))]"

section \<open>The query-filter parser\<close>

subsection \<open>What one round of each loop does\<close>

lemma popSortElem_panics:
  "isl (popSortElem ss st) = (length ss < 4 \<or> (length ss = 4 \<and> ss \<noteq> ''asc.''))"
  by (auto simp: popSortElem_def slice_to_def slice_from_def)

lemma popFilterValue_panics:
  "isl (popFilterValue k v st) = (length v < 3 \<or> (length v < 5 \<and> take 3 v \<noteq> ''lt.''))"
  by (auto simp: popFilterValue_def slice_to_def)

lemma popFilterValue_result:
  assumes "popFilterValue k v st = Inr st'"
  shows "st' = (fst st, snd st @ [warnFilter k])
         \<or> (\<exists>c. st' = addFilter c k (take 3 v) st \<or> st' = addFilter c k (take 5 v) st)"
  using assms by (auto simp: popFilterValue_def slice_to_def split: if_splits)

text \<open>
  C1. The claim is that a value with a recognised comparator prefix yields a property
  filter whose \<^verbatim>\<open>Value\<close> is the rest of the value after the prefix, so that
  \<^verbatim>\<open>eq.active\<close> under the key \<^verbatim>\<open>status\<close> yields \<^verbatim>\<open>{EQ, "status", "active"}\<close>. The source
  stores \<^verbatim>\<open>v[:3]\<close> (or \<^verbatim>\<open>v[:5]\<close>), the prefix itself: on this input \<^verbatim>\<open>popFilter\<close>
  appends \<^verbatim>\<open>{EQ, "status", "eq."}\<close>.
\<close>

theorem popFilter_stores_prefix:
  "popFilter [(''status'', [''eq.active''])] (emptyFilter, []) =
     Inr (emptyFilter\<lparr>PropFilters := [\<lparr>Comp = EQ, PropName = ''status'', Value = ''eq.''\<rparr>]\<rparr>, [])"
  by (simp add: popFilterValue_def slice_to_def addFilter_def emptyFilter_def)

text \<open>
  C2. The claim is that parsing the query never panics, also on sort elements and
  filter values shorter than the prefixes. The source slices \<^verbatim>\<open>ss[:4]\<close>, \<^verbatim>\<open>ss[:5]\<close>,
  \<^verbatim>\<open>v[:3]\<close> and \<^verbatim>\<open>v[:5]\<close> without looking at the length: \<^verbatim>\<open>popSort\<close> panics on the
  empty string, on \<^verbatim>\<open>a\<close> and on \<^verbatim>\<open>desc\<close>, and \<^verbatim>\<open>popFilter\<close> panics on the values
  \<^verbatim>\<open>lt\<close>, the empty string and \<^verbatim>\<open>eq.1\<close>, whatever the state.
\<close>

theorem parse_panics_on_short_values:
  "popSort [] st = Inl SliceBoundsOutOfRange
   \<and> popSort ''a'' st = Inl SliceBoundsOutOfRange
   \<and> popSort ''desc'' st = Inl SliceBoundsOutOfRange
   \<and> popFilter [(k, [''lt''])] st = Inl SliceBoundsOutOfRange
   \<and> popFilter [(k, [[]])] st = Inl SliceBoundsOutOfRange
   \<and> popFilter [(k, [''eq.1''])] st = Inl SliceBoundsOutOfRange"
  by (simp add: popSort_def popSortElem_def popFilterValue_def slice_to_def)

text \<open>
  C3. The claim is that a \<^verbatim>\<open>page\<close> value that is no signed integer leaves \<^verbatim>\<open>Page\<close> nil,
  and a \<^verbatim>\<open>count\<close> value that is no unsigned integer leaves \<^verbatim>\<open>Count\<close> nil. The source
  logs the warning and then stores the address of the parsed variable all the same:
  \<^verbatim>\<open>page=abc\<close> gives \<^verbatim>\<open>Page\<close> pointing to 0, and \<^verbatim>\<open>count=-1\<close> gives \<^verbatim>\<open>Count\<close> pointing
  to 0, each with its warning.
\<close>

theorem pop_sets_page_and_count_on_failure:
  "pop [(''page'', [''abc''])] (emptyFilter, []) = Inr ((emptyFilter\<lparr>Page := Some 0\<rparr>, [warnPage]), None)
   \<and> pop [(''count'', [''-1''])] (emptyFilter, []) = Inr ((emptyFilter\<lparr>Count := Some 0\<rparr>, [warnCount]), None)"
  by (simp add: pop_def popPage_def popCount_def popSortKey_def lookupKey_def deleteKey_def index_at_def
      ParseInt_def ParseUint_def isDigit_def)

lemma notPanic: "\<not> isl x \<Longrightarrow> \<exists>y. x = Inr y"
  by (cases x) auto

lemma popSortLoop_returns:
  "\<forall>ss \<in> set xs. 5 \<le> length ss \<Longrightarrow> \<exists>st'. popSortLoop xs st = Inr st'"
proof (induction xs arbitrary: st)
  case Nil
  show ?case by simp
next
  case (Cons ss xs)
  then have "\<not> isl (popSortElem ss st)" by (simp add: popSortElem_panics)
  then obtain st1 where "popSortElem ss st = Inr st1" using notPanic by blast
  moreover have "\<forall>ss \<in> set xs. 5 \<le> length ss" using Cons.prems by simp
  from Cons.IH [OF this, of st1] obtain st' where "popSortLoop xs st1 = Inr st'" by blast
  ultimately show ?case by simp
qed

lemma popFilterValues_returns:
  "\<forall>v \<in> set va. 5 \<le> length v \<Longrightarrow> \<exists>st'. popFilterValues k va st = Inr st'"
proof (induction va arbitrary: st)
  case Nil
  show ?case by simp
next
  case (Cons v va)
  then have "\<not> isl (popFilterValue k v st)" by (simp add: popFilterValue_panics)
  then obtain st1 where "popFilterValue k v st = Inr st1" using notPanic by blast
  moreover have "\<forall>v \<in> set va. 5 \<le> length v" using Cons.prems by simp
  from Cons.IH [OF this, of st1] obtain st' where "popFilterValues k va st1 = Inr st'" by blast
  ultimately show ?case by simp
qed

lemma popFilter_returns:
  "\<forall>kv \<in> set q. \<forall>v \<in> set (snd kv). 5 \<le> length v \<Longrightarrow> \<exists>st'. popFilter q st = Inr st'"
proof (induction q arbitrary: st)
  case Nil
  show ?case by simp
next
  case (Cons kv q)
  obtain k va where kv: "kv = (k, va)" by (cases kv)
  with Cons.prems have "\<forall>v \<in> set va. 5 \<le> length v" by simp
  then obtain st1 where "popFilterValues k va st = Inr st1" using popFilterValues_returns by blast
  moreover have "\<forall>kv \<in> set q. \<forall>v \<in> set (snd kv). 5 \<le> length v" using Cons.prems by simp
  from Cons.IH [OF this, of st1] obtain st' where "popFilter q st1 = Inr st'" by blast
  ultimately show ?case using kv by simp
qed

lemma take3_take5:
  assumes "take 5 v = a"
  shows "take 3 v = take 3 a"
  unfolding assms [symmetric] by simp

lemma specValues_simps:
  "specValues k [] = []"
  "specValues k (v # va) = (case specComp v of None \<Rightarrow> [] | Some c \<Rightarrow> [(k, c)]) @ specValues k va"
  "specValues k (va1 @ va2) = specValues k va1 @ specValues k va2"
  by (simp_all add: specValues_def map_filter_def split: option.splits)

lemma specPairs_append: "specPairs (q1 @ q2) = specPairs q1 @ specPairs q2"
  by (induction q1) auto

lemma popFilterValue_keyComp:
  assumes "popFilterValue k v st = Inr st'"
  shows "map keyComp (PropFilters (fst st')) =
         map keyComp (PropFilters (fst st)) @ (case specComp v of None \<Rightarrow> [] | Some c \<Rightarrow> [(k, c)])"
proof -
  have g: "take 3 v = ''gte''" if "take 5 v = ''gteq.''"
    using take3_take5 [OF that] by simp
  have l: "take 3 v = ''lte''" if "take 5 v = ''lteq.''"
    using take3_take5 [OF that] by simp
  show ?thesis
    using assms
    by (auto simp: popFilterValue_def slice_to_def specComp_def addFilter_def keyComp_def
        split: if_splits dest: g l)
qed

lemma popFilterValues_keyComp:
  "popFilterValues k va st = Inr st' \<Longrightarrow>
   map keyComp (PropFilters (fst st')) = map keyComp (PropFilters (fst st)) @ specValues k va"
proof (induction va arbitrary: st)
  case Nil
  then show ?case by (simp add: specValues_simps)
next
  case (Cons v va)
  from Cons.prems obtain st1 where s1: "popFilterValue k v st = Inr st1"
    and s2: "popFilterValues k va st1 = Inr st'"
    by (auto split: sum.splits)
  show ?case
    using popFilterValue_keyComp [OF s1] Cons.IH [OF s2]
    by (simp add: specValues_simps)
qed

lemma popFilter_keyComp:
  "popFilter q st = Inr st' \<Longrightarrow>
   map keyComp (PropFilters (fst st')) = map keyComp (PropFilters (fst st)) @ specPairs q"
proof (induction q arbitrary: st)
  case Nil
  then show ?case by simp
next
  case (Cons kv q)
  obtain k va where kv: "kv = (k, va)" by (cases kv)
  from Cons.prems kv obtain st1 where s1: "popFilterValues k va st = Inr st1"
    and s2: "popFilter q st1 = Inr st'"
    by (auto split: sum.splits)
  show ?case
    using popFilterValues_keyComp [OF s1] Cons.IH [OF s2] kv by simp
qed

lemma specComp_gteq: "specComp (''gteq.'' @ rest) = Some GTEQ"
  by (simp add: specComp_def)

lemma specComp_lteq: "specComp (''lteq.'' @ rest) = Some LTEQ"
  by (simp add: specComp_def)

lemma specPairs_at:
  "specPairs (qa @ (k, xs @ v # ys) # qb) =
     specPairs qa @ specValues k xs @ (case specComp v of None \<Rightarrow> [] | Some c \<Rightarrow> [(k, c)])
       @ specValues k ys @ specPairs qb"
  by (simp add: specPairs_append specValues_simps)

text \<open>
  C6. A value that begins with \<^verbatim>\<open>gteq.\<close> is classified \<^verbatim>\<open>GTEQ\<close> and never \<^verbatim>\<open>GT\<close>, and a
  value that begins with \<^verbatim>\<open>lteq.\<close> is classified \<^verbatim>\<open>LTEQ\<close> and never \<^verbatim>\<open>LT\<close>. On such a
  value alone, \<^verbatim>\<open>popFilter\<close> appends exactly one filter, with that comparator. On any
  query on which \<^verbatim>\<open>popFilter\<close> returns, the keys and comparators of the filters it
  appends are those of the most specific prefix of each value, value by value in the
  order of the query; so wherever in the query a value beginning with \<^verbatim>\<open>gteq.\<close>
  (\<^verbatim>\<open>lteq.\<close>) stands, under whatever key and among whatever other values, the one
  entry at its place is its key with \<^verbatim>\<open>GTEQ\<close> (\<^verbatim>\<open>LTEQ\<close>). And \<^verbatim>\<open>popFilter\<close> does
  return on every query whose values have at least five bytes each, as every value
  with one of these two prefixes has.
\<close>

theorem popFilter_most_specific_prefix:
  "popFilterValue k (''gteq.'' @ rest) st = Inr (addFilter GTEQ k ''gteq.'' st)
   \<and> popFilter [(k, [''gteq.'' @ rest])] st = Inr (addFilter GTEQ k ''gteq.'' st)
   \<and> popFilter [(k, [''gteq.'' @ rest])] st \<noteq> Inr (addFilter GT k x st)
   \<and> popFilterValue k (''lteq.'' @ rest) st = Inr (addFilter LTEQ k ''lteq.'' st)
   \<and> popFilter [(k, [''lteq.'' @ rest])] st = Inr (addFilter LTEQ k ''lteq.'' st)
   \<and> popFilter [(k, [''lteq.'' @ rest])] st \<noteq> Inr (addFilter LT k x st)
   \<and> (popFilter q st = Inr st' \<longrightarrow>
        map keyComp (PropFilters (fst st')) = map keyComp (PropFilters (fst st)) @ specPairs q)
   \<and> (popFilter (qa @ (k, xs @ (''gteq.'' @ rest) # ys) # qb) st = Inr st' \<longrightarrow>
        map keyComp (PropFilters (fst st')) =
          map keyComp (PropFilters (fst st)) @ specPairs qa @ specValues k xs @ [(k, GTEQ)]
            @ specValues k ys @ specPairs qb)
   \<and> (popFilter (qa @ (k, xs @ (''lteq.'' @ rest) # ys) # qb) st = Inr st' \<longrightarrow>
        map keyComp (PropFilters (fst st')) =
          map keyComp (PropFilters (fst st)) @ specPairs qa @ specValues k xs @ [(k, LTEQ)]
            @ specValues k ys @ specPairs qb)
   \<and> ((\<forall>kv \<in> set q. \<forall>v \<in> set (snd kv). 5 \<le> length v) \<longrightarrow> (\<exists>st'. popFilter q st = Inr st'))"
proof -
  have ret: "(\<forall>kv \<in> set q. \<forall>v \<in> set (snd kv). 5 \<le> length v) \<longrightarrow> (\<exists>st'. popFilter q st = Inr st')"
    using popFilter_returns by blast
  have g: "popFilterValue k (''gteq.'' @ rest) st = Inr (addFilter GTEQ k ''gteq.'' st)"
    by (simp add: popFilterValue_def slice_to_def)
  have l: "popFilterValue k (''lteq.'' @ rest) st = Inr (addFilter LTEQ k ''lteq.'' st)"
    by (simp add: popFilterValue_def slice_to_def)
  have ne: "addFilter c k a st \<noteq> addFilter c' k b st" if "c \<noteq> c'" for c c' a b
  proof
    assume "addFilter c k a st = addFilter c' k b st"
    then have "PropFilters (fst (addFilter c k a st)) = PropFilters (fst (addFilter c' k b st))"
      by simp
    with that show False by (simp add: addFilter_def)
  qed
  have single: "popFilterValue k (''gteq.'' @ rest) st = Inr (addFilter GTEQ k ''gteq.'' st)
   \<and> popFilter [(k, [''gteq.'' @ rest])] st = Inr (addFilter GTEQ k ''gteq.'' st)
   \<and> popFilter [(k, [''gteq.'' @ rest])] st \<noteq> Inr (addFilter GT k x st)
   \<and> popFilterValue k (''lteq.'' @ rest) st = Inr (addFilter LTEQ k ''lteq.'' st)
   \<and> popFilter [(k, [''lteq.'' @ rest])] st = Inr (addFilter LTEQ k ''lteq.'' st)
   \<and> popFilter [(k, [''lteq.'' @ rest])] st \<noteq> Inr (addFilter LT k x st)"
    using g l ne [of GTEQ GT] ne [of LTEQ LT] by simp
  have all: "popFilter q st = Inr st' \<longrightarrow>
        map keyComp (PropFilters (fst st')) = map keyComp (PropFilters (fst st)) @ specPairs q"
    using popFilter_keyComp by blast
  have atg: "popFilter (qa @ (k, xs @ (''gteq.'' @ rest) # ys) # qb) st = Inr st' \<longrightarrow>
        map keyComp (PropFilters (fst st')) =
          map keyComp (PropFilters (fst st)) @ specPairs qa @ specValues k xs @ [(k, GTEQ)]
            @ specValues k ys @ specPairs qb"
  proof
    assume "popFilter (qa @ (k, xs @ (''gteq.'' @ rest) # ys) # qb) st = Inr st'"
    from popFilter_keyComp [OF this]
    show "map keyComp (PropFilters (fst st')) =
          map keyComp (PropFilters (fst st)) @ specPairs qa @ specValues k xs @ [(k, GTEQ)]
            @ specValues k ys @ specPairs qb"
      by (simp only: specPairs_at specComp_gteq option.case)
  qed
  have atl: "popFilter (qa @ (k, xs @ (''lteq.'' @ rest) # ys) # qb) st = Inr st' \<longrightarrow>
        map keyComp (PropFilters (fst st')) =
          map keyComp (PropFilters (fst st)) @ specPairs qa @ specValues k xs @ [(k, LTEQ)]
            @ specValues k ys @ specPairs qb"
  proof
    assume "popFilter (qa @ (k, xs @ (''lteq.'' @ rest) # ys) # qb) st = Inr st'"
    from popFilter_keyComp [OF this]
    show "map keyComp (PropFilters (fst st')) =
          map keyComp (PropFilters (fst st)) @ specPairs qa @ specValues k xs @ [(k, LTEQ)]
            @ specValues k ys @ specPairs qb"
      by (simp only: specPairs_at specComp_lteq option.case)
  qed
  show ?thesis using single all atg atl ret by blast
qed

theorem popFilter_most_specific_prefix_witness:
  "popFilter ([] @ (''k'', [''eq.aaaaa''] @ (''gteq.'' @ ''5'') # [''lteq.7'']) # [(''j'', [''zzzzz'', ''gt.12''])])
      (emptyFilter, []) =
     Inr (emptyFilter\<lparr>PropFilters :=
            [\<lparr>Comp = EQ, PropName = ''k'', Value = ''eq.''\<rparr>,
             \<lparr>Comp = GTEQ, PropName = ''k'', Value = ''gteq.''\<rparr>,
             \<lparr>Comp = LTEQ, PropName = ''k'', Value = ''lteq.''\<rparr>,
             \<lparr>Comp = GT, PropName = ''j'', Value = ''gt.''\<rparr>]\<rparr>,
          [warnFilter ''j''])
   \<and> map keyComp
        [\<lparr>Comp = EQ, PropName = ''k'', Value = ''eq.''\<rparr>,
         \<lparr>Comp = GTEQ, PropName = ''k'', Value = ''gteq.''\<rparr>,
         \<lparr>Comp = LTEQ, PropName = ''k'', Value = ''lteq.''\<rparr>,
         \<lparr>Comp = GT, PropName = ''j'', Value = ''gt.''\<rparr>] =
       specValues ''k'' [''eq.aaaaa''] @ [(''k'', GTEQ)] @ specValues ''k'' [''lteq.7'']
         @ specPairs [(''j'', [''zzzzz'', ''gt.12''])]
   \<and> specValues ''k'' [''eq.aaaaa''] @ [(''k'', GTEQ)] @ specValues ''k'' [''lteq.7'']
         @ specPairs [(''j'', [''zzzzz'', ''gt.12''])] =
       [(''k'', EQ), (''k'', GTEQ), (''k'', LTEQ), (''j'', GT)]
   \<and> (\<exists>st'. popFilter ([] @ (''k'', [''eq.aaaaa''] @ (''gteq.'' @ ''5'') # [''lteq.7'']) # [(''j'', [''zzzzz'', ''gt.12''])])
          (emptyFilter, []) = Inr st')"
proof -
  let ?q = "[] @ (''k'', [''eq.aaaaa''] @ (''gteq.'' @ ''5'') # [''lteq.7'']) # [(''j'', [''zzzzz'', ''gt.12''])]"
  let ?st' = "(emptyFilter\<lparr>PropFilters :=
            [\<lparr>Comp = EQ, PropName = ''k'', Value = ''eq.''\<rparr>,
             \<lparr>Comp = GTEQ, PropName = ''k'', Value = ''gteq.''\<rparr>,
             \<lparr>Comp = LTEQ, PropName = ''k'', Value = ''lteq.''\<rparr>,
             \<lparr>Comp = GT, PropName = ''j'', Value = ''gt.''\<rparr>]\<rparr>,
          [warnFilter ''j''])"
  have p: "popFilter ?q (emptyFilter, []) = Inr ?st'"
    by (simp add: popFilterValue_def slice_to_def addFilter_def emptyFilter_def)
  note t = popFilter_most_specific_prefix [where qa = "[]" and k = "''k''" and xs = "[''eq.aaaaa'']"
      and rest = "''5''" and ys = "[''lteq.7'']" and qb = "[(''j'', [''zzzzz'', ''gt.12''])]"
      and st = "(emptyFilter, [])" and st' = ?st']
  note t8 = t [THEN conjunct2, THEN conjunct2, THEN conjunct2, THEN conjunct2, THEN conjunct2,
      THEN conjunct2, THEN conjunct2, THEN conjunct1]
  from mp [OF t8 p] have a: "map keyComp
        [\<lparr>Comp = EQ, PropName = ''k'', Value = ''eq.''\<rparr>,
         \<lparr>Comp = GTEQ, PropName = ''k'', Value = ''gteq.''\<rparr>,
         \<lparr>Comp = LTEQ, PropName = ''k'', Value = ''lteq.''\<rparr>,
         \<lparr>Comp = GT, PropName = ''j'', Value = ''gt.''\<rparr>] =
       specValues ''k'' [''eq.aaaaa''] @ [(''k'', GTEQ)] @ specValues ''k'' [''lteq.7'']
         @ specPairs [(''j'', [''zzzzz'', ''gt.12''])]"
    by (simp add: emptyFilter_def)
  have b: "specValues ''k'' [''eq.aaaaa''] @ [(''k'', GTEQ)] @ specValues ''k'' [''lteq.7'']
         @ specPairs [(''j'', [''zzzzz'', ''gt.12''])] =
       [(''k'', EQ), (''k'', GTEQ), (''k'', LTEQ), (''j'', GT)]"
    by (simp add: specValues_simps specComp_def)
  have l: "\<forall>kv \<in> set ?q. \<forall>v \<in> set (snd kv). 5 \<le> length v"
    by simp
  note u = popFilter_most_specific_prefix [where q = ?q and st = "(emptyFilter, [])"]
  note u10 = u [THEN conjunct2, THEN conjunct2, THEN conjunct2, THEN conjunct2, THEN conjunct2,
      THEN conjunct2, THEN conjunct2, THEN conjunct2, THEN conjunct2]
  have e: "\<exists>st'. popFilter ?q (emptyFilter, []) = Inr st'"
    using mp [OF u10 l] .
  show ?thesis using p a b e by blast
qed

section \<open>The wrappers\<close>

text \<open>
  C10. For a request whose method is none of \<^verbatim>\<open>OPTIONS\<close>, \<^verbatim>\<open>GET\<close>, \<^verbatim>\<open>PUT\<close>, \<^verbatim>\<open>POST\<close>
  and \<^verbatim>\<open>DELETE\<close>, the CORS wrapper returns the response writer as it got it, whatever the
  wrapped handler is: the handler is not run and nothing is written. The handlers that
  \<^verbatim>\<open>CreateApiObject\<close> registers have the CORS wrapper outermost, so neither the security
  wrapper nor the collection is reached.
\<close>

theorem applyCorsHeaders_other_methods:
  assumes "Method r \<notin> {''OPTIONS'', ''GET'', ''PUT'', ''POST'', ''DELETE''}"
  shows "applyCorsHeaders handler r w = Inr w
         \<and> pluralOf env ec r w = Inr w
         \<and> singularOf env ec r w = Inr w"
  using assms by (simp add: applyCorsHeaders_def pluralOf_def singularOf_def)

theorem applyCorsHeaders_other_methods_witness:
  "Method (sampleRequest ''HEAD'' ''/widgets'' []) \<notin> {''OPTIONS'', ''GET'', ''PUT'', ''POST'', ''DELETE''}
   \<and> applyCorsHeaders (\<lambda>r w. Inl IndexOutOfRange) (sampleRequest ''HEAD'' ''/widgets'' []) newResponse = Inr newResponse
   \<and> pluralOf sampleEnv widgets (sampleRequest ''HEAD'' ''/widgets'' []) newResponse = Inr newResponse
   \<and> singularOf sampleEnv widgets (sampleRequest ''HEAD'' ''/widgets'' []) newResponse = Inr newResponse"
proof -
  have h: "Method (sampleRequest ''HEAD'' ''/widgets'' []) \<notin> {''OPTIONS'', ''GET'', ''PUT'', ''POST'', ''DELETE''}"
    by (simp add: sampleRequest_def)
  show ?thesis
    using h applyCorsHeaders_other_methods [OF h, of "\<lambda>r w. Inl IndexOutOfRange" newResponse sampleEnv widgets]
    by simp
qed

section \<open>The path parser\<close>

lemma Split_nonempty: "Split s c \<noteq> []"
  by (induction s) (auto split: list.splits)

lemma Split_no_sep: "c \<notin> set s \<Longrightarrow> Split s c = [s]"
  by (induction s) auto

lemma Split_sep: "c \<notin> set a \<Longrightarrow> Split (a @ c # r) c = a # Split r c"
  by (induction a) (auto simp: Split_nonempty split: list.splits)

lemma length_flatPairs: "length (flatPairs qs) = 2 * length qs"
  by (induction qs) auto

lemma uuidLoop_first_bad:
  assumes "2 * i + 1 < length pcs" and "fs (pcs ! (2 * i + 1)) = Inl e"
    and "\<forall>j<i. \<exists>u. fs (pcs ! (2 * j + 1)) = Inr u" and "k \<le> i"
  shows "uuidLoop fs pcs (2 * k) m = (Map.empty, Some (parseUUIDError (pcs ! (2 * i)) e))"
  using assms(4)
proof (induction "i - k" arbitrary: k m)
  case 0
  then have "k = i" by simp
  with assms(1,2) show ?case by (subst uuidLoop.simps) simp
next
  case (Suc d)
  then have lt: "k < i" and d: "d = i - Suc k" by simp_all
  from lt assms(3) obtain u where u: "fs (pcs ! (2 * k + 1)) = Inr u" by blast
  from lt assms(1) have b: "2 * k + 1 < length pcs" by simp
  have "uuidLoop fs pcs (2 * k) m = uuidLoop fs pcs (2 * Suc k) (m(pcs ! (2 * k) \<mapsto> u))"
    using b u by (subst uuidLoop.simps) simp
  also have "\<dots> = (Map.empty, Some (parseUUIDError (pcs ! (2 * i)) e))"
    using Suc.hyps(1) [OF d] lt by simp
  finally show ?case .
qed

lemma uuidLoop_pairs:
  assumes "\<forall>q \<in> set qs. \<exists>u. fs (snd q) = Inr u"
  shows "uuidLoop fs (pre @ flatPairs qs @ [t]) (length pre) m = (putAll m (parsedPairs fs qs), None)"
  using assms
proof (induction qs arbitrary: pre m)
  case Nil
  show ?case by (subst uuidLoop.simps) (simp add: parsedPairs_def)
next
  case (Cons q qs)
  obtain n s where q: "q = (n, s)" by (cases q)
  from Cons.prems q obtain u where u: "fs s = Inr u" by auto
  have step: "uuidLoop fs (pre @ flatPairs (q # qs) @ [t]) (length pre) m =
        uuidLoop fs (pre @ flatPairs (q # qs) @ [t]) (length pre + 2) (m(n \<mapsto> u))"
    using u q by (subst uuidLoop.simps) (simp add: nth_append)
  have eq: "pre @ flatPairs (q # qs) @ [t] = (pre @ [n, s]) @ flatPairs qs @ [t]"
    using q by simp
  have "uuidLoop fs ((pre @ [n, s]) @ flatPairs qs @ [t]) (length (pre @ [n, s])) (m(n \<mapsto> u)) =
          (putAll (m(n \<mapsto> u)) (parsedPairs fs qs), None)"
    using Cons.prems by (intro Cons.IH) simp
  moreover have "parsedPairs fs (q # qs) = (n, u) # parsedPairs fs qs"
    using q u by (simp add: parsedPairs_def)
  ultimately show ?case using step eq by simp
qed

lemma dom_putAll: "dom (putAll m ps) = dom m \<union> fst ` set ps"
proof (induction ps arbitrary: m)
  case Nil
  show ?case by simp
next
  case (Cons p ps)
  obtain k v where p: "p = (k, v)" by (cases p)
  have "dom (putAll (m(k \<mapsto> v)) ps) = dom (m(k \<mapsto> v)) \<union> fst ` set ps"
    by (rule Cons.IH)
  then show ?case using p by auto
qed

lemma putAll_map_of:
  "distinct (map fst ps) \<Longrightarrow> putAll m ps = m ++ map_of ps"
proof (induction ps arbitrary: m)
  case Nil
  show ?case by simp
next
  case (Cons p ps)
  obtain k v where p: "p = (k, v)" by (cases p)
  from Cons.prems p have d: "distinct (map fst ps)" and k: "k \<notin> dom (map_of ps)"
    by (simp_all add: dom_map_of_conv_image_fst)
  have "putAll m (p # ps) = putAll (m(k \<mapsto> v)) ps"
    unfolding p by (rule putAll.simps)
  also have "\<dots> = m(k \<mapsto> v) ++ map_of ps"
    using d by (rule Cons.IH)
  also have "\<dots> = m ++ (map_of ps)(k \<mapsto> v)"
    using k by (metis map_add_upd_left map_add_upd)
  also have "\<dots> = m ++ map_of (p # ps)"
    unfolding p by (simp only: map_of.simps fst_conv snd_conv)
  finally show ?case .
qed

lemma buildPath_hd: "\<exists>rest. buildPath toS ps t = CHR ''/'' # rest"
  by (cases ps) auto

lemma Split_buildPath:
  assumes "\<forall>p \<in> set ps. CHR ''/'' \<notin> set (fst p) \<and> CHR ''/'' \<notin> set (toS (snd p))" and "CHR ''/'' \<notin> set t"
  shows "Split (buildPath toS ps t) CHR ''/'' = [] # flatPairs (map (\<lambda>p. (fst p, toS (snd p))) ps) @ [t]"
  using assms
proof (induction ps)
  case Nil
  then show ?case by (simp add: Split_no_sep)
next
  case (Cons p ps)
  obtain n u where p: "p = (n, u)" by (cases p)
  obtain rest where rest: "buildPath toS ps t = CHR ''/'' # rest" using buildPath_hd by blast
  from Cons have IH: "Split (CHR ''/'' # rest) CHR ''/'' = [] # flatPairs (map (\<lambda>p. (fst p, toS (snd p))) ps) @ [t]"
    by (simp add: rest)
  from Cons.prems p have n: "CHR ''/'' \<notin> set n" and s: "CHR ''/'' \<notin> set (toS u)" by auto
  have "Split (buildPath toS (p # ps) t) CHR ''/'' = [] # Split (n @ CHR ''/'' # toS u @ CHR ''/'' # rest) CHR ''/''"
    using p rest by simp
  also have "\<dots> = [] # n # Split (toS u @ CHR ''/'' # rest) CHR ''/''"
    using n by (simp add: Split_sep)
  also have "\<dots> = [] # n # toS u # Split rest CHR ''/''"
    using s by (simp add: Split_sep)
  finally show ?case using IH p by simp
qed

lemma uuidLoop_all_ok:
  assumes "\<forall>j. 2 * j + 1 < length pcs \<longrightarrow> (\<exists>u. fs (pcs ! (2 * j + 1)) = Inr u)"
  shows "snd (uuidLoop fs pcs (2 * k) m) = None"
proof (induction "length pcs - 2 * k" arbitrary: k m rule: less_induct)
  case less
  show ?case
  proof (cases "2 * k + 1 < length pcs")
    case True
    with assms obtain u where u: "fs (pcs ! (2 * k + 1)) = Inr u" by blast
    have "uuidLoop fs pcs (2 * k) m = uuidLoop fs pcs (2 * Suc k) (m(pcs ! (2 * k) \<mapsto> u))"
      using True u by (subst uuidLoop.simps) simp
    moreover have "snd (uuidLoop fs pcs (2 * Suc k) (m(pcs ! (2 * k) \<mapsto> u))) = None"
      using True by (intro less) simp
    ultimately show ?thesis by simp
  next
    case False
    then show ?thesis by (subst uuidLoop.simps) simp
  qed
qed

lemma getPathComponentUuids_valid:
  assumes "pathComponentsOf path = flatPairs qs @ [t]"
    and "\<forall>q \<in> set qs. \<exists>u. fs (snd q) = Inr u"
  shows "getPathComponentUuids fs path = (putAll Map.empty (parsedPairs fs qs), None)"
proof -
  have "length (pathComponentsOf path) mod 2 = 1"
    using assms(1) by (simp add: length_flatPairs)
  moreover have "uuidLoop fs ([] @ flatPairs qs @ [t]) (length ([] :: string list)) Map.empty =
      (putAll Map.empty (parsedPairs fs qs), None)"
    using assms(2) by (rule uuidLoop_pairs)
  ultimately show ?thesis
    using assms(1) by (simp add: getPathComponentUuids_def)
qed

lemma getPathComponentUuids_even:
  "length (pathComponentsOf path) mod 2 \<noteq> 1 \<Longrightarrow>
   getPathComponentUuids fs path = (Map.empty, Some (pathComponentError path))"
  by (simp add: getPathComponentUuids_def)

lemma getPathComponentUuids_first_bad:
  assumes "pcs = pathComponentsOf path" and "length pcs mod 2 = 1"
    and "2 * i + 1 < length pcs" and "fs (pcs ! (2 * i + 1)) = Inl e"
    and "\<forall>j<i. \<exists>u. fs (pcs ! (2 * j + 1)) = Inr u"
  shows "getPathComponentUuids fs path = (Map.empty, Some (parseUUIDError (pcs ! (2 * i)) e))"
proof -
  have "uuidLoop fs pcs (2 * 0) Map.empty = (Map.empty, Some (parseUUIDError (pcs ! (2 * i)) e))"
    using assms(3,4,5) by (intro uuidLoop_first_bad) simp_all
  then show ?thesis
    using assms(1,2) by (simp add: getPathComponentUuids_def)
qed

lemma getPathComponentUuids_all_ok:
  assumes "pcs = pathComponentsOf path" and "length pcs mod 2 = 1"
    and "\<forall>j. 2 * j + 1 < length pcs \<longrightarrow> (\<exists>u. fs (pcs ! (2 * j + 1)) = Inr u)"
  shows "snd (getPathComponentUuids fs path) = None"
proof -
  have "snd (uuidLoop fs pcs (2 * 0) Map.empty) = None"
    using assms(3) by (rule uuidLoop_all_ok)
  then show ?thesis
    using assms(1,2) by (simp add: getPathComponentUuids_def)
qed

lemma getPathComponentUuids_error_iff:
  assumes "pcs = pathComponentsOf path"
  shows "(snd (getPathComponentUuids fs path) \<noteq> None) =
         (length pcs mod 2 \<noteq> 1 \<or> (\<exists>j. 2 * j + 1 < length pcs \<and> isl (fs (pcs ! (2 * j + 1)))))"
    and "snd (getPathComponentUuids fs path) \<noteq> None \<Longrightarrow> fst (getPathComponentUuids fs path) = Map.empty"
proof -
  let ?bad = "\<lambda>j. 2 * j + 1 < length pcs \<and> isl (fs (pcs ! (2 * j + 1)))"
  consider (even) "length pcs mod 2 \<noteq> 1"
    | (bad) "length pcs mod 2 = 1" "\<exists>j. ?bad j"
    | (ok) "length pcs mod 2 = 1" "\<not> (\<exists>j. ?bad j)"
    by blast
  then have "((snd (getPathComponentUuids fs path) \<noteq> None) =
         (length pcs mod 2 \<noteq> 1 \<or> (\<exists>j. ?bad j)))
       \<and> (snd (getPathComponentUuids fs path) \<noteq> None \<longrightarrow> fst (getPathComponentUuids fs path) = Map.empty)"
  proof cases
    case even
    then show ?thesis using assms by (simp add: getPathComponentUuids_even)
  next
    case bad
    then obtain i where i: "?bad i" and least: "\<forall>j<i. \<not> ?bad j"
      using exists_least_iff [of ?bad] by blast
    from i obtain e where e: "fs (pcs ! (2 * i + 1)) = Inl e"
      by (cases "fs (pcs ! (2 * i + 1))") auto
    have "\<forall>j<i. \<exists>u. fs (pcs ! (2 * j + 1)) = Inr u"
    proof (intro allI impI)
      fix j assume "j < i"
      with least i have "\<not> isl (fs (pcs ! (2 * j + 1)))" by auto
      then show "\<exists>u. fs (pcs ! (2 * j + 1)) = Inr u"
        by (cases "fs (pcs ! (2 * j + 1))") auto
    qed
    with assms bad(1) i e
    have "getPathComponentUuids fs path = (Map.empty, Some (parseUUIDError (pcs ! (2 * i)) e))"
      by (intro getPathComponentUuids_first_bad) simp_all
    then show ?thesis using bad by auto
  next
    case ok
    have "\<forall>j. 2 * j + 1 < length pcs \<longrightarrow> (\<exists>u. fs (pcs ! (2 * j + 1)) = Inr u)"
    proof (intro allI impI)
      fix j assume "2 * j + 1 < length pcs"
      with ok(2) have "\<not> isl (fs (pcs ! (2 * j + 1)))" by blast
      then show "\<exists>u. fs (pcs ! (2 * j + 1)) = Inr u"
        by (cases "fs (pcs ! (2 * j + 1))") auto
    qed
    with assms ok(1) have "snd (getPathComponentUuids fs path) = None"
      by (intro getPathComponentUuids_all_ok) simp_all
    then show ?thesis using ok by simp
  qed
  then show "(snd (getPathComponentUuids fs path) \<noteq> None) =
         (length pcs mod 2 \<noteq> 1 \<or> (\<exists>j. 2 * j + 1 < length pcs \<and> isl (fs (pcs ! (2 * j + 1)))))"
    and "snd (getPathComponentUuids fs path) \<noteq> None \<Longrightarrow> fst (getPathComponentUuids fs path) = Map.empty"
    by blast+
qed

text \<open>
  C4. \<^verbatim>\<open>getPathComponentUuids\<close> returns the empty map with an error exactly on malformed
  paths. With \<open>pcs\<close> the components after the first piece of the split: when their
  number is even, the result is the empty map and \<open>pathComponentError\<close> with the path;
  when it is odd and the identifier of pair \<open>i\<close> is the first that does not parse, the
  result is the empty map and \<open>parseUUIDError\<close> with the name of that pair and the
  parser's error, whatever the later identifiers are; there is an error exactly when
  the number is even or some identifier does not parse; and with an error the map
  is empty.
\<close>

theorem getPathComponentUuids_malformed:
  assumes "pcs = pathComponentsOf path"
  shows "(length pcs mod 2 \<noteq> 1 \<longrightarrow>
            getPathComponentUuids fs path = (Map.empty, Some (pathComponentError path)))
       \<and> (length pcs mod 2 = 1 \<and> 2 * i + 1 < length pcs \<and> fs (pcs ! (2 * i + 1)) = Inl e
            \<and> (\<forall>j<i. \<exists>u. fs (pcs ! (2 * j + 1)) = Inr u) \<longrightarrow>
            getPathComponentUuids fs path = (Map.empty, Some (parseUUIDError (pcs ! (2 * i)) e)))
       \<and> ((snd (getPathComponentUuids fs path) \<noteq> None) =
            (length pcs mod 2 \<noteq> 1 \<or> (\<exists>j. 2 * j + 1 < length pcs \<and> isl (fs (pcs ! (2 * j + 1))))))
       \<and> (snd (getPathComponentUuids fs path) \<noteq> None \<longrightarrow> fst (getPathComponentUuids fs path) = Map.empty)"
  using assms getPathComponentUuids_even [of path fs]
    getPathComponentUuids_first_bad [of pcs path i fs e]
    getPathComponentUuids_error_iff [of pcs path fs]
  by blast

lemma putAll_rev: "putAll m ps = m ++ map_of (rev ps)"
proof (induction ps arbitrary: m)
  case Nil
  show ?case by simp
next
  case (Cons p ps)
  obtain k v where p: "p = (k, v)" by (cases p)
  have "putAll m (p # ps) = putAll (m(k \<mapsto> v)) ps"
    unfolding p by (rule putAll.simps)
  also have "\<dots> = m(k \<mapsto> v) ++ map_of (rev ps)"
    by (rule Cons.IH)
  also have "m(k \<mapsto> v) = m ++ map_of [(k, v)]"
    by simp
  also have "(m ++ map_of [(k, v)]) ++ map_of (rev ps) = m ++ (map_of [(k, v)] ++ map_of (rev ps))"
    by (rule map_add_assoc [symmetric])
  also have "map_of [(k, v)] ++ map_of (rev ps) = map_of (rev ps @ [(k, v)])"
    by (simp only: map_of_append)
  also have "rev ps @ [(k, v)] = rev (p # ps)"
    unfolding p by simp
  finally show ?case .
qed

lemma names_parsedPairs: "map fst (parsedPairs fs qs) = map fst qs"
  by (simp add: parsedPairs_def case_prod_unfold)

lemma map_of_rev_last:
  assumes "n \<notin> fst ` set qb"
  shows "map_of (rev (qa @ (n, u) # qb)) n = Some u"
proof -
  have "map_of (rev qb) n = None"
    using assms by (simp add: map_of_eq_None_iff)
  then show ?thesis
    by (simp add: map_add_def)
qed

text \<open>
  C7, as amended. A plural path with N parent pairs and a terminal name, all of whose
  identifiers parse, gives no error and the map that takes each parent name to its
  identifier, a repeated name to the last of its identifiers: the map has one entry for
  each distinct parent name, and exactly N entries when the N names are pairwise
  distinct. A path built from pairs with pairwise distinct names, where names,
  identifier texts and terminal name have no slash and each identifier is parsed back
  from its text, gives the map of those pairs, in whatever order the pairs are listed.
\<close>

theorem getPathComponentUuids_round_trip:
  "(pathComponentsOf path = flatPairs qs @ [t] \<and> (\<forall>q \<in> set qs. \<exists>u. fs (snd q) = Inr u) \<longrightarrow>
      getPathComponentUuids fs path = (map_of (rev (parsedPairs fs qs)), None)
      \<and> dom (fst (getPathComponentUuids fs path)) = fst ` set qs
      \<and> card (dom (fst (getPathComponentUuids fs path))) = card (fst ` set qs)
      \<and> (distinct (map fst qs) \<longrightarrow> card (dom (fst (getPathComponentUuids fs path))) = length qs)
      \<and> (qs = qa @ (n, s) # qb \<and> n \<notin> fst ` set qb \<longrightarrow>
            fst (getPathComponentUuids fs path) n = Some (projr (fs s))))
   \<and> (distinct (map fst ps) \<and> CHR ''/'' \<notin> set t
      \<and> (\<forall>p \<in> set ps. CHR ''/'' \<notin> set (fst p) \<and> CHR ''/'' \<notin> set (toS (snd p)) \<and> fs (toS (snd p)) = Inr (snd p)) \<longrightarrow>
      getPathComponentUuids fs (buildPath toS ps t) = (map_of ps, None))"
proof (rule conjI; rule impI)
  assume h: "pathComponentsOf path = flatPairs qs @ [t] \<and> (\<forall>q \<in> set qs. \<exists>u. fs (snd q) = Inr u)"
  then have "getPathComponentUuids fs path = (putAll Map.empty (parsedPairs fs qs), None)"
    by (intro getPathComponentUuids_valid) simp_all
  then have r: "getPathComponentUuids fs path = (map_of (rev (parsedPairs fs qs)), None)"
    by (simp add: putAll_rev)
  have "dom (map_of (rev (parsedPairs fs qs))) = set (map fst (parsedPairs fs qs))"
    by (simp add: dom_map_of_conv_image_fst)
  then have d: "dom (fst (getPathComponentUuids fs path)) = fst ` set qs"
    using r by (simp add: names_parsedPairs)
  have c: "card (dom (fst (getPathComponentUuids fs path))) = length qs" if "distinct (map fst qs)"
  proof -
    from that have "card (set (map fst qs)) = length (map fst qs)" by (rule distinct_card)
    then show ?thesis using d by simp
  qed
  have l: "fst (getPathComponentUuids fs path) n = Some (projr (fs s))"
    if "qs = qa @ (n, s) # qb \<and> n \<notin> fst ` set qb"
  proof -
    have e: "parsedPairs fs qs = parsedPairs fs qa @ (n, projr (fs s)) # parsedPairs fs qb"
      using that by (simp add: parsedPairs_def)
    have "set (map fst (parsedPairs fs qb)) = set (map fst qb)"
      by (simp only: names_parsedPairs)
    then have "n \<notin> fst ` set (parsedPairs fs qb)"
      using that by simp
    then have "map_of (rev (parsedPairs fs qa @ (n, projr (fs s)) # parsedPairs fs qb)) n = Some (projr (fs s))"
      by (rule map_of_rev_last)
    then have "map_of (rev (parsedPairs fs qs)) n = Some (projr (fs s))"
      by (simp only: e)
    then show ?thesis using r by simp
  qed
  show "getPathComponentUuids fs path = (map_of (rev (parsedPairs fs qs)), None)
      \<and> dom (fst (getPathComponentUuids fs path)) = fst ` set qs
      \<and> card (dom (fst (getPathComponentUuids fs path))) = card (fst ` set qs)
      \<and> (distinct (map fst qs) \<longrightarrow> card (dom (fst (getPathComponentUuids fs path))) = length qs)
      \<and> (qs = qa @ (n, s) # qb \<and> n \<notin> fst ` set qb \<longrightarrow>
            fst (getPathComponentUuids fs path) n = Some (projr (fs s)))"
    using r d c l by (intro conjI impI) simp_all
next
  assume h: "distinct (map fst ps) \<and> CHR ''/'' \<notin> set t
      \<and> (\<forall>p \<in> set ps. CHR ''/'' \<notin> set (fst p) \<and> CHR ''/'' \<notin> set (toS (snd p)) \<and> fs (toS (snd p)) = Inr (snd p))"
  let ?qs = "map (\<lambda>p. (fst p, toS (snd p))) ps"
  have "Split (buildPath toS ps t) CHR ''/'' = [] # flatPairs ?qs @ [t]"
    using h by (intro Split_buildPath) simp_all
  then have pc: "pathComponentsOf (buildPath toS ps t) = flatPairs ?qs @ [t]"
    by (simp add: pathComponentsOf_def)
  have ok: "\<forall>q \<in> set ?qs. \<exists>u. fs (snd q) = Inr u"
    using h by auto
  have pp: "parsedPairs fs ?qs = ps"
    using h by (simp add: parsedPairs_def map_idI)
  have "getPathComponentUuids fs (buildPath toS ps t) = (putAll Map.empty (parsedPairs fs ?qs), None)"
    using pc ok by (rule getPathComponentUuids_valid)
  moreover have "putAll Map.empty ps = Map.empty ++ map_of ps"
    using h by (intro putAll_map_of) simp
  ultimately show "getPathComponentUuids fs (buildPath toS ps t) = (map_of ps, None)"
    using pp by simp
qed

lemma canonicalFromString_sample:
  "canonicalFromString ''6ba7b810-9dad-11d1-80b4-00c04fd430c8'' =
     Inr [107, 167, 184, 16, 157, 173, 17, 209, 128, 180, 0, 192, 79, 212, 48, 200]"
  by (simp add: canonicalFromString_def hexVal_def)

lemma canonicalFromString_short: "length s < 36 \<Longrightarrow> canonicalFromString s = Inl ''uuid: incorrect UUID length''"
  by (simp add: canonicalFromString_def)

theorem getPathComponentUuids_malformed_witness:
  "getPathComponentUuids canonicalFromString ''/foo/bar'' = (Map.empty, Some (pathComponentError ''/foo/bar''))
   \<and> getPathComponentUuids canonicalFromString ''/foo/6ba7b810-9dad-11d1-80b4-00c04fd430c8/baz/xx/bar'' =
       (Map.empty, Some (parseUUIDError ''baz'' ''uuid: incorrect UUID length''))
   \<and> snd (getPathComponentUuids canonicalFromString ''/foo/6ba7b810-9dad-11d1-80b4-00c04fd430c8/bar'') = None"
proof -
  let ?u = "''6ba7b810-9dad-11d1-80b4-00c04fd430c8''"
  have p1: "[''foo'', ''bar''] = pathComponentsOf ''/foo/bar''"
    by (simp add: pathComponentsOf_def)
  have p2: "[''foo'', ?u, ''baz'', ''xx'', ''bar''] = pathComponentsOf ''/foo/6ba7b810-9dad-11d1-80b4-00c04fd430c8/baz/xx/bar''"
    by (simp add: pathComponentsOf_def)
  have p3: "[''foo'', ?u, ''bar''] = pathComponentsOf ''/foo/6ba7b810-9dad-11d1-80b4-00c04fd430c8/bar''"
    by (simp add: pathComponentsOf_def)
  have xx: "canonicalFromString ''xx'' = Inl ''uuid: incorrect UUID length''"
    by (simp add: canonicalFromString_short)
  have a: "getPathComponentUuids canonicalFromString ''/foo/bar'' = (Map.empty, Some (pathComponentError ''/foo/bar''))"
    using getPathComponentUuids_malformed [OF p1, of canonicalFromString 0 "[]"] by simp
  have b: "getPathComponentUuids canonicalFromString ''/foo/6ba7b810-9dad-11d1-80b4-00c04fd430c8/baz/xx/bar'' =
       (Map.empty, Some (parseUUIDError ''baz'' ''uuid: incorrect UUID length''))"
    using getPathComponentUuids_malformed [OF p2, of canonicalFromString 1 "''uuid: incorrect UUID length''"]
      xx canonicalFromString_sample by simp
  have nobad: "\<not> (\<exists>j. 2 * j + 1 < length [''foo'', ?u, ''bar'']
      \<and> isl (canonicalFromString ([''foo'', ?u, ''bar''] ! (2 * j + 1))))"
  proof
    assume "\<exists>j. 2 * j + 1 < length [''foo'', ?u, ''bar'']
      \<and> isl (canonicalFromString ([''foo'', ?u, ''bar''] ! (2 * j + 1)))"
    then obtain j where j: "2 * j + 1 < length [''foo'', ?u, ''bar'']"
      "isl (canonicalFromString ([''foo'', ?u, ''bar''] ! (2 * j + 1)))" by blast
    from j(1) have "j = 0" by simp
    with j(2) show False using canonicalFromString_sample by simp
  qed
  have odd: "length [''foo'', ?u, ''bar''] mod 2 = 1" by simp
  from getPathComponentUuids_malformed [OF p3, of canonicalFromString 0 "[]"]
  have "(snd (getPathComponentUuids canonicalFromString ''/foo/6ba7b810-9dad-11d1-80b4-00c04fd430c8/bar'') \<noteq> None) =
      (length [''foo'', ?u, ''bar''] mod 2 \<noteq> 1
       \<or> (\<exists>j. 2 * j + 1 < length [''foo'', ?u, ''bar'']
              \<and> isl (canonicalFromString ([''foo'', ?u, ''bar''] ! (2 * j + 1)))))"
    by blast
  with odd nobad
  have c: "snd (getPathComponentUuids canonicalFromString ''/foo/6ba7b810-9dad-11d1-80b4-00c04fd430c8/bar'') = None"
    by blast
  show ?thesis using a b c by simp
qed

lemma canonicalFromString_sample2:
  "canonicalFromString ''6ba7b811-9dad-11d1-80b4-00c04fd430c8'' =
     Inr [107, 167, 184, 17, 157, 173, 17, 209, 128, 180, 0, 192, 79, 212, 48, 200]"
  by (simp add: canonicalFromString_def hexVal_def)

lemma canonicalString_sample:
  "canonicalString [107, 167, 184, 16, 157, 173, 17, 209, 128, 180, 0, 192, 79, 212, 48, 200] =
     ''6ba7b810-9dad-11d1-80b4-00c04fd430c8''"
  by (simp add: canonicalString_def hexOf_def hexDigit_def)

text \<open>
  C7 as stated fails on a path that repeats a parent name: this path has two parent
  pairs, both named \<^verbatim>\<open>a\<close>, parses without error, and its map has one entry.
\<close>

theorem getPathComponentUuids_repeated_name:
  "pathComponentsOf ''/a/6ba7b810-9dad-11d1-80b4-00c04fd430c8/a/6ba7b811-9dad-11d1-80b4-00c04fd430c8/b'' =
     flatPairs [(''a'', ''6ba7b810-9dad-11d1-80b4-00c04fd430c8''), (''a'', ''6ba7b811-9dad-11d1-80b4-00c04fd430c8'')] @ [''b'']
   \<and> snd (getPathComponentUuids canonicalFromString
        ''/a/6ba7b810-9dad-11d1-80b4-00c04fd430c8/a/6ba7b811-9dad-11d1-80b4-00c04fd430c8/b'') = None
   \<and> card (dom (fst (getPathComponentUuids canonicalFromString
        ''/a/6ba7b810-9dad-11d1-80b4-00c04fd430c8/a/6ba7b811-9dad-11d1-80b4-00c04fd430c8/b''))) = 1
   \<and> card (dom (fst (getPathComponentUuids canonicalFromString
        ''/a/6ba7b810-9dad-11d1-80b4-00c04fd430c8/a/6ba7b811-9dad-11d1-80b4-00c04fd430c8/b''))) \<noteq> 2"
proof -
  let ?P = "''/a/6ba7b810-9dad-11d1-80b4-00c04fd430c8/a/6ba7b811-9dad-11d1-80b4-00c04fd430c8/b''"
  let ?qs = "[(''a'', ''6ba7b810-9dad-11d1-80b4-00c04fd430c8''), (''a'', ''6ba7b811-9dad-11d1-80b4-00c04fd430c8'')]"
  have pc: "pathComponentsOf ?P = flatPairs ?qs @ [''b'']"
    by (simp add: pathComponentsOf_def)
  have ok: "\<forall>q \<in> set ?qs. \<exists>u. canonicalFromString (snd q) = Inr u"
    using canonicalFromString_sample canonicalFromString_sample2 by simp
  have r: "getPathComponentUuids canonicalFromString ?P = (putAll Map.empty (parsedPairs canonicalFromString ?qs), None)"
    using pc ok by (rule getPathComponentUuids_valid)
  have "dom (putAll Map.empty (parsedPairs canonicalFromString ?qs)) = {''a''}"
    by (simp add: dom_putAll parsedPairs_def)
  then have "card (dom (fst (getPathComponentUuids canonicalFromString ?P))) = 1"
    using r by simp
  then show ?thesis using pc r by simp
qed

theorem getPathComponentUuids_round_trip_witness:
  "pathComponentsOf ''/a/6ba7b810-9dad-11d1-80b4-00c04fd430c8/a/6ba7b811-9dad-11d1-80b4-00c04fd430c8/b'' =
      flatPairs ([(''a'', ''6ba7b810-9dad-11d1-80b4-00c04fd430c8'')]
        @ (''a'', ''6ba7b811-9dad-11d1-80b4-00c04fd430c8'') # []) @ [''b'']
   \<and> snd (getPathComponentUuids canonicalFromString
        ''/a/6ba7b810-9dad-11d1-80b4-00c04fd430c8/a/6ba7b811-9dad-11d1-80b4-00c04fd430c8/b'') = None
   \<and> dom (fst (getPathComponentUuids canonicalFromString
        ''/a/6ba7b810-9dad-11d1-80b4-00c04fd430c8/a/6ba7b811-9dad-11d1-80b4-00c04fd430c8/b'')) = {''a''}
   \<and> fst (getPathComponentUuids canonicalFromString
        ''/a/6ba7b810-9dad-11d1-80b4-00c04fd430c8/a/6ba7b811-9dad-11d1-80b4-00c04fd430c8/b'') ''a'' =
        Some [107, 167, 184, 17, 157, 173, 17, 209, 128, 180, 0, 192, 79, 212, 48, 200]
   \<and> pathComponentsOf ''/foo/6ba7b810-9dad-11d1-80b4-00c04fd430c8/bar'' =
      flatPairs [(''foo'', ''6ba7b810-9dad-11d1-80b4-00c04fd430c8'')] @ [''bar'']
   \<and> card (dom (fst (getPathComponentUuids canonicalFromString ''/foo/6ba7b810-9dad-11d1-80b4-00c04fd430c8/bar''))) = 1
   \<and> buildPath canonicalString
        [(''foo'', [107, 167, 184, 16, 157, 173, 17, 209, 128, 180, 0, 192, 79, 212, 48, 200])] ''bar'' =
        ''/foo/6ba7b810-9dad-11d1-80b4-00c04fd430c8/bar''
   \<and> getPathComponentUuids canonicalFromString
        (buildPath canonicalString
          [(''foo'', [107, 167, 184, 16, 157, 173, 17, 209, 128, 180, 0, 192, 79, 212, 48, 200])] ''bar'') =
        (map_of [(''foo'', [107, 167, 184, 16, 157, 173, 17, 209, 128, 180, 0, 192, 79, 212, 48, 200])], None)"
proof -
  let ?rep = "''/a/6ba7b810-9dad-11d1-80b4-00c04fd430c8/a/6ba7b811-9dad-11d1-80b4-00c04fd430c8/b''"
  let ?qa = "[(''a'', ''6ba7b810-9dad-11d1-80b4-00c04fd430c8'')]"
  let ?s = "''6ba7b811-9dad-11d1-80b4-00c04fd430c8''"
  let ?rqs = "?qa @ (''a'', ?s) # []"
  let ?path = "''/foo/6ba7b810-9dad-11d1-80b4-00c04fd430c8/bar''"
  let ?qs = "[(''foo'', ''6ba7b810-9dad-11d1-80b4-00c04fd430c8'')]"
  let ?ps = "[(''foo'', [107, 167, 184, 16, 157, 173, 17, 209, 128, 180, 0, 192, 79, 212, 48, 200 :: nat])]"
  have rpc: "pathComponentsOf ?rep = flatPairs ?rqs @ [''b'']"
    by (simp add: pathComponentsOf_def)
  have rh: "pathComponentsOf ?rep = flatPairs ?rqs @ [''b'']
      \<and> (\<forall>q \<in> set ?rqs. \<exists>u. canonicalFromString (snd q) = Inr u)"
    using rpc canonicalFromString_sample canonicalFromString_sample2 by simp
  have rl: "?rqs = ?qa @ (''a'', ?s) # [] \<and> ''a'' \<notin> fst ` set ([] :: (string \<times> string) list)"
    by simp
  note tr = getPathComponentUuids_round_trip [where path = ?rep and qs = ?rqs and t = "''b''"
      and fs = canonicalFromString and qa = ?qa and n = "''a''" and s = ?s and qb = "[]"]
  note tr1 = mp [OF tr [THEN conjunct1] rh]
  have r1: "snd (getPathComponentUuids canonicalFromString ?rep) = None"
    using tr1 [THEN conjunct1] by simp
  have r2: "dom (fst (getPathComponentUuids canonicalFromString ?rep)) = {''a''}"
    using tr1 [THEN conjunct2, THEN conjunct1] by simp
  have r3: "fst (getPathComponentUuids canonicalFromString ?rep) ''a'' =
      Some [107, 167, 184, 17, 157, 173, 17, 209, 128, 180, 0, 192, 79, 212, 48, 200]"
    using mp [OF tr1 [THEN conjunct2, THEN conjunct2, THEN conjunct2, THEN conjunct2] rl]
      canonicalFromString_sample2 by simp
  have pc: "pathComponentsOf ?path = flatPairs ?qs @ [''bar'']"
    by (simp add: pathComponentsOf_def)
  have h1: "pathComponentsOf ?path = flatPairs ?qs @ [''bar'']
      \<and> (\<forall>q \<in> set ?qs. \<exists>u. canonicalFromString (snd q) = Inr u)"
    using pc canonicalFromString_sample by simp
  have h2: "distinct (map fst ?ps) \<and> CHR ''/'' \<notin> set ''bar''
      \<and> (\<forall>p \<in> set ?ps. CHR ''/'' \<notin> set (fst p) \<and> CHR ''/'' \<notin> set (canonicalString (snd p))
            \<and> canonicalFromString (canonicalString (snd p)) = Inr (snd p))"
    using canonicalFromString_sample canonicalString_sample by simp
  have bp: "buildPath canonicalString ?ps ''bar'' = ?path"
    using canonicalString_sample by simp
  note t = getPathComponentUuids_round_trip [where path = ?path and qs = ?qs and t = "''bar''"
      and fs = canonicalFromString and ps = ?ps and toS = canonicalString]
  note t1 = mp [OF t [THEN conjunct1] h1]
  have dq: "distinct (map fst ?qs)" by simp
  have a: "card (dom (fst (getPathComponentUuids canonicalFromString ?path))) = 1"
    using mp [OF t1 [THEN conjunct2, THEN conjunct2, THEN conjunct2, THEN conjunct1] dq] by simp
  have b: "getPathComponentUuids canonicalFromString (buildPath canonicalString ?ps ''bar'') = (map_of ?ps, None)"
    using mp [OF t [THEN conjunct2] h2] .
  show ?thesis using rpc r1 r2 r3 pc a b bp by simp
qed

section \<open>Route resolution\<close>

lemma Status_Error: "Status w = None \<Longrightarrow> Status (Error w msg code) = Some code"
  by (simp add: Error_def Fprint_def WriteHeader_def headerSet_def Let_def)

lemma index_at_last: "xs \<noteq> [] \<Longrightarrow> index_at xs (int (length xs) - 1) = Inr (last xs)"
  by (simp add: index_at_def last_conv_nth nat_diff_distrib' of_nat_diff)

lemma CreateApiObject_widgets:
  "GetRestName ec = ''widgets'' \<Longrightarrow>
   CreateApiObject env ec [] =
     Inr [(''/widgets'', HandlerFunc (pluralOf env ec)), (''/widgets/'', HandlerFunc (singularOf env ec))]"
  by (simp add: CreateApiObject_def Handle_def)

lemma CreateApiObject_widgetsMux: "CreateApiObject sampleEnv widgets [] = Inr widgetsMux"
  by (simp add: CreateApiObject_widgets widgets_def widgetsMux_def)

lemma cleanPath_samples:
  "cleanPath ''/widgets'' = ''/widgets''"
  "cleanPath ''/widgets/'' = ''/widgets/''"
  "cleanPath ''/unknown'' = ''/unknown''"
  "cleanPath ''//'' = ''/''"
  by (simp_all add: cleanPath_def Clean_def cleanStep_def)

lemma cleanPath_segment:
  assumes "CHR ''/'' \<notin> set u"
  shows "cleanPath (CHR ''/'' # u) = (if u = [] \<or> u = ''.'' \<or> u = ''..'' then ''/'' else CHR ''/'' # u)"
proof -
  have "Split (CHR ''/'' # u) CHR ''/'' = [[], u]"
    using assms by (simp add: Split_no_sep)
  moreover have "last u \<noteq> CHR ''/''" if "u \<noteq> []"
  proof
    assume e: "last u = CHR ''/''"
    from that have "last u \<in> set u" by (rule last_in_set)
    with e assms show False by simp
  qed
  ultimately show ?thesis
    by (auto simp: cleanPath_def Clean_def cleanStep_def)
qed

lemma muxHandler_two:
  assumes "mux = [(''/widgets'', P), (''/widgets/'', S)]"
  shows "muxHandler mux ''/widgets'' = (P, ''/widgets'')"
    and "muxHandler mux ''/widgets/'' = (S, ''/widgets/'')"
    and "muxHandler mux ''/'' = (NotFoundHandler, [])"
    and "CHR ''/'' \<notin> set u \<Longrightarrow> u \<noteq> ''widgets'' \<Longrightarrow> muxHandler mux (CHR ''/'' # u) = (NotFoundHandler, [])"
proof -
  show "muxHandler mux ''/widgets'' = (P, ''/widgets'')"
    using assms by (simp add: muxHandler_def muxMatch_def)
  show "muxHandler mux ''/widgets/'' = (S, ''/widgets/'')"
    using assms by (simp add: muxHandler_def muxMatch_def)
  show "muxHandler mux ''/'' = (NotFoundHandler, [])"
    using assms by (simp add: muxHandler_def muxMatch_def isPrefixPattern_def)
  assume u: "CHR ''/'' \<notin> set u" "u \<noteq> ''widgets''"
  have ne: "CHR ''/'' # u \<noteq> ''/widgets/''" using u(1) by auto
  have np: "\<not> isPrefixPattern ''/widgets/'' (CHR ''/'' # u)"
  proof
    assume "isPrefixPattern ''/widgets/'' (CHR ''/'' # u)"
    then have t: "take (length ''/widgets/'') (CHR ''/'' # u) = ''/widgets/''"
      by (simp only: isPrefixPattern_def)
    define d where "d = drop (length ''/widgets/'') (CHR ''/'' # u)"
    have "take (length ''/widgets/'') (CHR ''/'' # u) @ d = CHR ''/'' # u"
      unfolding d_def by (rule append_take_drop_id)
    then have "''/widgets/'' @ d = CHR ''/'' # u"
      by (simp only: t)
    then have d: "u = ''widgets/'' @ d"
      by simp
    have "CHR ''/'' \<in> set u"
      unfolding d by simp
    then show False using u(1) by simp
  qed
  have np': "\<not> isPrefixPattern ''/widgets'' (CHR ''/'' # u)"
    by (simp add: isPrefixPattern_def)
  show "muxHandler mux (CHR ''/'' # u) = (NotFoundHandler, [])"
    using assms u(2) ne np np' by (simp add: muxHandler_def muxMatch_def)
qed

lemma RootApiHandler_plural:
  assumes "mux = [(''/widgets'', P), (''/widgets/'', S)]" and "Path r = ''/widgets''"
  shows "RootApiHandler mux r w = ServeHTTP P r w"
proof -
  have h: "ServeMux_Handler mux (r\<lparr>Path := ''/widgets''\<rparr>) = (P, ''/widgets'')"
    using muxHandler_two(1) [OF assms(1)] by (simp add: ServeMux_Handler_def cleanPath_samples)
  have same: "r\<lparr>Path := ''/widgets''\<rparr> = r" using assms(2) by simp
  have "RootApiHandler mux r w = ServeHTTP P (r\<lparr>Path := ''/widgets''\<rparr>) w"
    unfolding RootApiHandler_def assms(2) by (simp add: h index_at_def)
  then show ?thesis by (simp only: same)
qed

lemma RootApiHandler_singular:
  assumes "mux = [(''/widgets'', P), (''/widgets/'', S)]" and "Path r = ''/widgets/'' @ u"
    and "CHR ''/'' \<notin> set u" and "u \<noteq> ''widgets''"
  shows "RootApiHandler mux r w = ServeHTTP S r w"
proof -
  have sp: "Split (''/widgets/'' @ u) CHR ''/'' = [[], ''widgets'', u]"
    using assms(3) by (simp add: Split_no_sep)
  have nf: "muxHandler mux (CHR ''/'' # u) = (NotFoundHandler, [])"
    using muxHandler_two(4) [OF assms(1) assms(3) assms(4)] .
  have nf': "muxHandler mux ''/'' = (NotFoundHandler, [])"
    using muxHandler_two(3) [OF assms(1)] .
  have h1: "snd (ServeMux_Handler mux (r\<lparr>Path := CHR ''/'' # u\<rparr>)) = []"
    using nf nf' assms(3) by (simp add: ServeMux_Handler_def cleanPath_segment Let_def)
  have h2: "ServeMux_Handler mux (r\<lparr>Path := ''/widgets/''\<rparr>) = (S, ''/widgets/'')"
    using muxHandler_two(2) [OF assms(1)] by (simp add: ServeMux_Handler_def cleanPath_samples)
  have same: "r\<lparr>Path := ''/widgets/'' @ u\<rparr> = r" using assms(2) by simp
  have "RootApiHandler mux r w = ServeHTTP S (r\<lparr>Path := ''/widgets/'' @ u\<rparr>) w"
    unfolding RootApiHandler_def assms(2) Let_def sp
    by (simp add: h1 h2 index_at_def case_prod_unfold)
  then show ?thesis by (simp only: same)
qed

lemma RootApiHandler_unknown:
  assumes "mux = [(''/widgets'', P), (''/widgets/'', S)]" and "Path r = ''/unknown''"
    and "Method r \<noteq> ''CONNECT''"
  shows "RootApiHandler mux r w = ServeHTTP (RedirectHandler ''/'' StatusMovedPermanently) r w"
proof -
  have h1: "ServeMux_Handler mux (r\<lparr>Path := ''/unknown''\<rparr>) = (NotFoundHandler, [])"
    using muxHandler_two(4) [OF assms(1), of "''unknown''"]
    by (simp add: ServeMux_Handler_def cleanPath_samples)
  have h2: "ServeMux_Handler mux (r\<lparr>Path := ''//''\<rparr>) = (RedirectHandler ''/'' StatusMovedPermanently, [])"
    using muxHandler_two(3) [OF assms(1)] assms(3)
    by (simp add: ServeMux_Handler_def cleanPath_samples)
  have same: "r\<lparr>Path := ''/unknown''\<rparr> = r" using assms(2) by simp
  have "RootApiHandler mux r w =
      ServeHTTP (RedirectHandler ''/'' StatusMovedPermanently) (r\<lparr>Path := ''/unknown''\<rparr>) w"
    unfolding RootApiHandler_def assms(2) by (simp add: h1 h2 index_at_def)
  then show ?thesis by (simp only: same)
qed

lemma RootApiHandler_unknown_nested:
  assumes "mux = [(''/widgets'', P), (''/widgets/'', S)]" and "Path r = ''/unknown/x''"
  shows "RootApiHandler mux r w = Inr (Error w ''404 page not found'' StatusNotFound)"
proof -
  have h1: "ServeMux_Handler mux (r\<lparr>Path := ''/x''\<rparr>) = (NotFoundHandler, [])"
    using muxHandler_two(4) [OF assms(1), of "''x''"]
    by (simp add: ServeMux_Handler_def cleanPath_def Clean_def cleanStep_def)
  have "muxHandler mux ''/unknown/'' = (NotFoundHandler, [])"
    using assms(1) by (simp add: muxHandler_def muxMatch_def isPrefixPattern_def)
  then have h2: "ServeMux_Handler mux (r\<lparr>Path := ''/unknown/''\<rparr>) = (NotFoundHandler, [])"
    by (simp add: ServeMux_Handler_def cleanPath_def Clean_def cleanStep_def)
  show ?thesis
    using h1 h2 assms(2)
    by (simp add: RootApiHandler_def index_at_def ServeHTTP_def)
qed

lemma getPathComponentUuids_single: "CHR ''/'' \<notin> set n \<Longrightarrow> getPathComponentUuids fs (CHR ''/'' # n) = (Map.empty, None)"
  by (subst getPathComponentUuids_def, subst uuidLoop.simps) (simp add: pathComponentsOf_def Split_no_sep)

text \<open>
  C5. The claim is that with the collection \<^verbatim>\<open>widgets\<close> registered, \<^verbatim>\<open>/widgets\<close> goes to
  the plural handler with an empty parent map, \<^verbatim>\<open>/widgets/<uuid>\<close> goes to the
  singular handler, and \<^verbatim>\<open>/unknown\<close> is not found. The first two hold
  (\<open>RootApiHandler_plural\<close>, \<open>getPathComponentUuids_single\<close>,
  \<open>RootApiHandler_singular\<close>). For \<^verbatim>\<open>/unknown\<close> the second hypothesis takes the
  piece before \<^verbatim>\<open>unknown\<close>, which is the empty piece before the leading slash, and
  looks up \<^verbatim>\<open>//\<close>. That path is not canonical, so the table answers with its
  redirect handler to \<^verbatim>\<open>/\<close> and an empty pattern, and \<^verbatim>\<open>RootApiHandler\<close> serves with
  it: the response is 301 with \<^verbatim>\<open>Location: /\<close>, where the source's comment expects the
  not-found handler. A path of an unknown name with a further segment, such as
  \<^verbatim>\<open>/unknown/x\<close>, is not found (\<open>RootApiHandler_unknown_nested\<close>).
\<close>

theorem RootApiHandler_unknown_redirects:
  "CreateApiObject sampleEnv widgets [] = Inr widgetsMux
   \<and> RootApiHandler widgetsMux (sampleRequest ''GET'' ''/unknown'' []) newResponse =
       ServeHTTP (RedirectHandler ''/'' StatusMovedPermanently) (sampleRequest ''GET'' ''/unknown'' []) newResponse
   \<and> (\<exists>w'. RootApiHandler widgetsMux (sampleRequest ''GET'' ''/unknown'' []) newResponse = Inr w'
          \<and> Status w' = Some 301 \<and> map_of (Header w') ''Location'' = Some ''/'')
   \<and> RootApiHandler widgetsMux (sampleRequest ''GET'' ''/unknown'' []) newResponse \<noteq>
       ServeHTTP NotFoundHandler (sampleRequest ''GET'' ''/unknown'' []) newResponse"
proof -
  have r: "RootApiHandler widgetsMux (sampleRequest ''GET'' ''/unknown'' []) newResponse =
      ServeHTTP (RedirectHandler ''/'' StatusMovedPermanently) (sampleRequest ''GET'' ''/unknown'' []) newResponse"
    by (rule RootApiHandler_unknown [OF widgetsMux_def]) (simp_all add: sampleRequest_def)
  have v: "ServeHTTP (RedirectHandler ''/'' StatusMovedPermanently) (sampleRequest ''GET'' ''/unknown'' []) newResponse =
      Inr \<lparr>Header = [(''Location'', ''/'')], Status = Some 301, Out = []\<rparr>"
    by (simp add: ServeHTTP_def WriteHeader_def headerSet_def newResponse_def StatusMovedPermanently_def)
  have n: "\<exists>w'. ServeHTTP NotFoundHandler (sampleRequest ''GET'' ''/unknown'' []) newResponse = Inr w'
      \<and> Status w' = Some 404"
    by (simp add: ServeHTTP_def Status_Error StatusNotFound_def newResponse_def)
  show ?thesis
    using r v n by (auto simp: CreateApiObject_widgetsMux)
qed

section \<open>The status of a malformed identifier\<close>

text \<open>
  C8, as amended. On a response writer whose status is not yet written: when
  \<^verbatim>\<open>getPathComponentUuids\<close> reports a parent identifier that does not parse, the plural
  handler answers 404 (not found) with the name of the component; when the last
  component of the path does not parse as an identifier, the singular handler answers
  400 (bad request).
\<close>

theorem malformed_uuid_status:
  assumes "Status w = None"
  shows "(snd (getPathComponentUuids (FromString env) (Path r)) = Some (parseUUIDError pc e) \<longrightarrow>
            getPluralHandler env ec r w = Inr (Error w (''invalid UUID for component: '' @ pc) StatusNotFound)
            \<and> Status (Error w (''invalid UUID for component: '' @ pc) StatusNotFound) = Some 404)
       \<and> (pathComponentsOf (Path r) \<noteq> [] \<and> FromString env (last (pathComponentsOf (Path r))) = Inl e' \<longrightarrow>
            getSingularHandler env ec r w = Inr (Error w ''error parsing  UUID'' StatusBadRequest)
            \<and> Status (Error w ''error parsing  UUID'' StatusBadRequest) = Some 400)"
proof (rule conjI; rule impI)
  assume h: "snd (getPathComponentUuids (FromString env) (Path r)) = Some (parseUUIDError pc e)"
  then have "getPluralHandler env ec r w = Inr (Error w (''invalid UUID for component: '' @ pc) StatusNotFound)"
    by (simp add: getPluralHandler_def case_prod_unfold)
  moreover have "Status (Error w (''invalid UUID for component: '' @ pc) StatusNotFound) = Some 404"
    using assms by (simp add: Status_Error StatusNotFound_def)
  ultimately show "getPluralHandler env ec r w = Inr (Error w (''invalid UUID for component: '' @ pc) StatusNotFound)
            \<and> Status (Error w (''invalid UUID for component: '' @ pc) StatusNotFound) = Some 404"
    by simp
next
  assume h: "pathComponentsOf (Path r) \<noteq> [] \<and> FromString env (last (pathComponentsOf (Path r))) = Inl e'"
  then have "getSingularHandler env ec r w = Inr (Error w ''error parsing  UUID'' StatusBadRequest)"
    by (simp add: getSingularHandler_def index_at_last)
  moreover have "Status (Error w ''error parsing  UUID'' StatusBadRequest) = Some 400"
    using assms by (simp add: Status_Error StatusBadRequest_def)
  ultimately show "getSingularHandler env ec r w = Inr (Error w ''error parsing  UUID'' StatusBadRequest)
            \<and> Status (Error w ''error parsing  UUID'' StatusBadRequest) = Some 400"
    by simp
qed

text \<open>
  C8 as stated fails on the singular path: the last component \<^verbatim>\<open>zz\<close> of
  \<^verbatim>\<open>/widgets/zz\<close> is no identifier, and the singular handler answers 400, not 404.
\<close>

theorem singular_malformed_uuid_is_bad_request:
  "FromString sampleEnv ''zz'' = Inl ''uuid: incorrect UUID length''
   \<and> getSingularHandler sampleEnv widgets (sampleRequest ''GET'' ''/widgets/zz'' []) newResponse =
       Inr (Error newResponse ''error parsing  UUID'' 400)
   \<and> Status (Error newResponse ''error parsing  UUID'' 400) = Some 400
   \<and> StatusNotFound \<noteq> 400"
  by (simp add: getSingularHandler_def sampleEnv_def sampleRequest_def pathComponentsOf_def index_at_def
      canonicalFromString_short StatusBadRequest_def StatusNotFound_def Status_Error newResponse_def)

theorem malformed_uuid_status_witness:
  "Status newResponse = None
   \<and> snd (getPathComponentUuids (FromString sampleEnv) (Path (sampleRequest ''GET'' ''/foo/zz/widgets'' []))) =
        Some (parseUUIDError ''foo'' ''uuid: incorrect UUID length'')
   \<and> getPluralHandler sampleEnv widgets (sampleRequest ''GET'' ''/foo/zz/widgets'' []) newResponse =
        Inr (Error newResponse ''invalid UUID for component: foo'' StatusNotFound)
   \<and> Status (Error newResponse ''invalid UUID for component: foo'' StatusNotFound) = Some 404
   \<and> FromString sampleEnv (last (pathComponentsOf (Path (sampleRequest ''GET'' ''/widgets/zz'' [])))) =
        Inl ''uuid: incorrect UUID length''
   \<and> getSingularHandler sampleEnv widgets (sampleRequest ''GET'' ''/widgets/zz'' []) newResponse =
        Inr (Error newResponse ''error parsing  UUID'' StatusBadRequest)
   \<and> Status (Error newResponse ''error parsing  UUID'' StatusBadRequest) = Some 400"
proof -
  have s: "Status newResponse = None" by (simp add: newResponse_def)
  have zz: "canonicalFromString ''zz'' = Inl ''uuid: incorrect UUID length''"
    by (simp add: canonicalFromString_short)
  have "uuidLoop canonicalFromString [''foo'', ''zz'', ''widgets''] (2 * 0) Map.empty =
      (Map.empty, Some (parseUUIDError ([''foo'', ''zz'', ''widgets''] ! (2 * 0)) ''uuid: incorrect UUID length''))"
    by (rule uuidLoop_first_bad) (simp_all add: zz)
  then have "getPathComponentUuids canonicalFromString ''/foo/zz/widgets'' =
      (Map.empty, Some (parseUUIDError ''foo'' ''uuid: incorrect UUID length''))"
    by (simp add: getPathComponentUuids_def pathComponentsOf_def)
  then have p: "snd (getPathComponentUuids (FromString sampleEnv) (Path (sampleRequest ''GET'' ''/foo/zz/widgets'' []))) =
        Some (parseUUIDError ''foo'' ''uuid: incorrect UUID length'')"
    by (simp add: sampleEnv_def sampleRequest_def)
  have q: "pathComponentsOf (Path (sampleRequest ''GET'' ''/widgets/zz'' [])) \<noteq> []
      \<and> FromString sampleEnv (last (pathComponentsOf (Path (sampleRequest ''GET'' ''/widgets/zz'' [])))) =
        Inl ''uuid: incorrect UUID length''"
    using zz by (simp add: sampleEnv_def sampleRequest_def pathComponentsOf_def)
  note t = malformed_uuid_status [OF s, where env = sampleEnv and ec = widgets
      and r = "sampleRequest ''GET'' ''/foo/zz/widgets'' []" and pc = "''foo''"
      and e = "''uuid: incorrect UUID length''"]
  note t' = malformed_uuid_status [OF s, where env = sampleEnv and ec = widgets
      and r = "sampleRequest ''GET'' ''/widgets/zz'' []" and e' = "''uuid: incorrect UUID length''"]
  from t p have a: "getPluralHandler sampleEnv widgets (sampleRequest ''GET'' ''/foo/zz/widgets'' []) newResponse =
        Inr (Error newResponse ''invalid UUID for component: foo'' StatusNotFound)
      \<and> Status (Error newResponse ''invalid UUID for component: foo'' StatusNotFound) = Some 404"
    by simp
  from t' q have b: "getSingularHandler sampleEnv widgets (sampleRequest ''GET'' ''/widgets/zz'' []) newResponse =
        Inr (Error newResponse ''error parsing  UUID'' StatusBadRequest)
      \<and> Status (Error newResponse ''error parsing  UUID'' StatusBadRequest) = Some 400"
    by blast
  show ?thesis using s p q a b by simp
qed

section \<open>The error of the filter parser\<close>

lemma pop_error_nil: "pop q st = Inr (st', err) \<Longrightarrow> err = None"
  by (auto simp: pop_def Let_def split: sum.splits)

text \<open>
  \<^verbatim>\<open>pop\<close> returns, with a nil error, on every query in which each key has a value, each
  value of a filter key has at least five bytes, and each element of the first
  \<^verbatim>\<open>sort\<close> value has at least five bytes.
\<close>

lemma pop_returns:
  assumes "\<forall>kv \<in> set q. snd kv \<noteq> []
      \<and> (fst kv \<notin> {''page'', ''count'', ''sort''} \<longrightarrow> (\<forall>v \<in> set (snd kv). 5 \<le> length v))"
    and "\<forall>vs. lookupKey q ''sort'' = Some vs \<longrightarrow> (\<forall>ss \<in> set (Split (hd vs) CHR '',''). 5 \<le> length ss)"
  shows "\<exists>st'. pop q st = Inr (st', None)"
proof -
  have ne: "vs \<noteq> []" if "lookupKey q' k = Some vs" and "set q' \<subseteq> set q" for q' k vs
  proof -
    from that(1) have "(k, vs) \<in> set q'" by (simp add: lookupKey_def map_of_SomeD)
    with that(2) have "(k, vs) \<in> set q" by blast
    with assms(1) have "snd (k, vs) \<noteq> []" by blast
    then show ?thesis by simp
  qed
  have at0: "index_at vs 0 = Inr (hd vs)" if "vs \<noteq> []" for vs :: "string list"
    using that by (simp add: index_at_def hd_conv_nth)
  obtain st1 where s1: "popPage q st = Inr st1"
    using ne [of q "''page''"] at0
    by (cases "lookupKey q ''page''") (auto simp: popPage_def Let_def case_prod_unfold)
  let ?q1 = "deleteKey q ''page''"
  have sub1: "set ?q1 \<subseteq> set q" by (auto simp: deleteKey_def)
  obtain st2 where s2: "popCount ?q1 st1 = Inr st2"
    using ne [of ?q1 "''count''"] at0 sub1
    by (cases "lookupKey ?q1 ''count''") (auto simp: popCount_def Let_def case_prod_unfold)
  let ?q2 = "deleteKey ?q1 ''count''"
  have sub2: "set ?q2 \<subseteq> set q" by (auto simp: deleteKey_def)
  have look: "lookupKey ?q2 ''sort'' = lookupKey q ''sort''"
    by (induction q) (auto simp: lookupKey_def deleteKey_def)
  obtain st3 where s3: "popSortKey ?q2 st2 = Inr st3"
  proof (cases "lookupKey q ''sort''")
    case None
    then show ?thesis using that look by (simp add: popSortKey_def)
  next
    case (Some vs)
    then have "vs \<noteq> []" using ne [of q "''sort''"] by simp
    moreover from Some assms(2) obtain st' where "popSortLoop (Split (hd vs) CHR '','') st2 = Inr st'"
      using popSortLoop_returns by blast
    ultimately show ?thesis using that look Some at0 by (simp add: popSortKey_def popSort_def)
  qed
  let ?q3 = "deleteKey ?q2 ''sort''"
  have "\<forall>kv \<in> set ?q3. \<forall>v \<in> set (snd kv). 5 \<le> length v"
    using assms(1) by (auto simp: deleteKey_def)
  then obtain st4 where s4: "popFilter ?q3 st3 = Inr st4" using popFilter_returns by blast
  show ?thesis using s1 s2 s3 s4 by (simp add: pop_def)
qed

text \<open>
  What holds of the error of \<^verbatim>\<open>pop\<close>: whenever \<^verbatim>\<open>pop\<close> returns, the error is nil, and on
  a well-formed path the plural \<^verbatim>\<open>GET\<close> handler is the handler without the branch that
  writes the bad-request response for a failed parse of the filters.
\<close>

lemma pop_error_is_nil:
  "(pop q st = Inr (st', err) \<longrightarrow> err = None)
   \<and> (getPathComponentUuids (FromString env) (Path r) = (parents, None) \<and> Method r = ''GET'' \<longrightarrow>
       getPluralHandler env ec r w =
         (case pop (Query r) (emptyFilter, []) of
            Inl p \<Rightarrow> Inl p
          | Inr (st, perr) \<Rightarrow>
              (case GetCollection ec parents (fst st) of
                 Inl e \<Rightarrow> Inr (Error w ''error retrieving collection'' StatusNotFound)
               | Inr c \<Rightarrow>
                   (case MarshalCollection env c of
                      Inl e \<Rightarrow> Inr (Error w ''error encoding JSON'' StatusInternalServerError)
                    | Inr entityJson \<Rightarrow> Inr (Fprint entityJson w)))))"
proof (rule conjI; rule impI)
  assume "pop q st = Inr (st', err)"
  then show "err = None" by (rule pop_error_nil)
next
  assume h: "getPathComponentUuids (FromString env) (Path r) = (parents, None) \<and> Method r = ''GET''"
  show "getPluralHandler env ec r w =
         (case pop (Query r) (emptyFilter, []) of
            Inl p \<Rightarrow> Inl p
          | Inr (st, perr) \<Rightarrow>
              (case GetCollection ec parents (fst st) of
                 Inl e \<Rightarrow> Inr (Error w ''error retrieving collection'' StatusNotFound)
               | Inr c \<Rightarrow>
                   (case MarshalCollection env c of
                      Inl e \<Rightarrow> Inr (Error w ''error encoding JSON'' StatusInternalServerError)
                    | Inr entityJson \<Rightarrow> Inr (Fprint entityJson w))))"
  proof (cases "pop (Query r) (emptyFilter, [])")
    case (Inl p)
    with h show ?thesis by (simp add: getPluralHandler_def)
  next
    case (Inr res)
    obtain st perr where res: "res = (st, perr)" by (cases res)
    with Inr have "perr = None" using pop_error_nil by blast
    with h Inr res show ?thesis by (simp add: getPluralHandler_def)
  qed
qed

lemma pop_error_is_nil_example:
  "pop [(''page'', [''2''])] (emptyFilter, []) = Inr ((emptyFilter\<lparr>Page := Some 2\<rparr>, []), None)
   \<and> getPathComponentUuids (FromString sampleEnv) (Path (sampleRequest ''GET'' ''/widgets'' [(''page'', [''2''])])) =
        (Map.empty, None)
   \<and> Method (sampleRequest ''GET'' ''/widgets'' [(''page'', [''2''])]) = ''GET''
   \<and> getPluralHandler sampleEnv widgets (sampleRequest ''GET'' ''/widgets'' [(''page'', [''2''])]) newResponse =
        Inr (Fprint ''{}'' newResponse)"
proof -
  let ?r = "sampleRequest ''GET'' ''/widgets'' [(''page'', [''2''])]"
  have p: "pop [(''page'', [''2''])] (emptyFilter, []) = Inr ((emptyFilter\<lparr>Page := Some 2\<rparr>, []), None)"
    by (simp add: pop_def popPage_def popCount_def popSortKey_def lookupKey_def deleteKey_def index_at_def
        ParseInt_def ParseUint_def isDigit_def digitVal_def maxUint64_def)
  have g: "getPathComponentUuids (FromString sampleEnv) (Path ?r) = (Map.empty, None) \<and> Method ?r = ''GET''"
    by (simp add: sampleRequest_def getPathComponentUuids_single)
  note t = pop_error_is_nil [where q = "[(''page'', [''2''])]" and st = "(emptyFilter, [])"
      and st' = "(emptyFilter\<lparr>Page := Some 2\<rparr>, [])" and err = None
      and env = sampleEnv and r = ?r and parents = Map.empty and ec = widgets and w = newResponse]
  from t g have "getPluralHandler sampleEnv widgets ?r newResponse =
         (case pop (Query ?r) (emptyFilter, []) of
            Inl p \<Rightarrow> Inl p
          | Inr (st, perr) \<Rightarrow>
              (case GetCollection widgets Map.empty (fst st) of
                 Inl e \<Rightarrow> Inr (Error newResponse ''error retrieving collection'' StatusNotFound)
               | Inr c \<Rightarrow>
                   (case MarshalCollection sampleEnv c of
                      Inl e \<Rightarrow> Inr (Error newResponse ''error encoding JSON'' StatusInternalServerError)
                    | Inr entityJson \<Rightarrow> Inr (Fprint entityJson newResponse))))"
    by blast
  moreover have "Query ?r = [(''page'', [''2''])]" by (simp add: sampleRequest_def)
  ultimately have "getPluralHandler sampleEnv widgets ?r newResponse = Inr (Fprint ''{}'' newResponse)"
    using p by (simp add: widgets_def sampleEnv_def)
  then show ?thesis using p g by simp
qed

text \<open>
  C9. The claim is that \<^verbatim>\<open>pop\<close> returns a nil error for every request, so that the
  bad-request branch of the plural \<^verbatim>\<open>GET\<close> handler is never taken. The branch is never
  taken and no error other than nil is ever returned (\<open>pop_error_is_nil\<close>), but \<^verbatim>\<open>pop\<close>
  does not return for every request: on the query \<^verbatim>\<open>sort=a\<close> it panics in \<^verbatim>\<open>popSort\<close>,
  on the unchecked \<^verbatim>\<open>ss[:4]\<close>, and so does the plural handler on
  \<^verbatim>\<open>GET /widgets?sort=a\<close>.
\<close>

theorem pop_panics_on_short_sort:
  "pop [(''sort'', [''a''])] (emptyFilter, []) = Inl SliceBoundsOutOfRange
   \<and> \<not> (\<exists>st'. pop [(''sort'', [''a''])] (emptyFilter, []) = Inr (st', None))
   \<and> getPluralHandler sampleEnv widgets (sampleRequest ''GET'' ''/widgets'' [(''sort'', [''a''])]) newResponse =
       Inl SliceBoundsOutOfRange"
proof -
  have p: "pop [(''sort'', [''a''])] (emptyFilter, []) = Inl SliceBoundsOutOfRange"
    by (simp add: pop_def popPage_def popCount_def popSortKey_def lookupKey_def deleteKey_def index_at_def
        popSort_def popSortElem_def slice_to_def)
  have "getPluralHandler sampleEnv widgets (sampleRequest ''GET'' ''/widgets'' [(''sort'', [''a''])]) newResponse =
       Inl SliceBoundsOutOfRange"
    using p by (simp add: getPluralHandler_def sampleRequest_def getPathComponentUuids_single)
  then show ?thesis using p by simp
qed

end
